theory Spec2Isabelle
  imports Main "HOL-Library.Word"
begin

section \<open>Client side: the chat hook (useChat) and its WebSocket manager\<close>

subsection \<open>Strings\<close>

text \<open>
  A JavaScript string is a sequence of UTF-16 code units. \<open>String.prototype.trim\<close>
  removes, from both ends, the code units of the ECMAScript productions WhiteSpace and
  LineTerminator; all of them lie in the Basic Multilingual Plane.
\<close>

type_synonym jsstring = "16 word list"

definition isWhiteSpace :: "16 word \<Rightarrow> bool" where
  "isWhiteSpace c \<longleftrightarrow>
     c \<in> set [0x0009, 0x000A, 0x000B, 0x000C, 0x000D, 0x0020, 0x00A0, 0x1680,
              0x2000, 0x2001, 0x2002, 0x2003, 0x2004, 0x2005, 0x2006, 0x2007,
              0x2008, 0x2009, 0x200A, 0x2028, 0x2029, 0x202F, 0x205F, 0x3000, 0xFEFF]"

definition trim :: "jsstring \<Rightarrow> jsstring" where
  "trim s = rev (dropWhile isWhiteSpace (rev (dropWhile isWhiteSpace s)))"

text \<open>Truthiness of a \<open>string | null\<close> value: \<open>null\<close> and the empty string are falsy.\<close>

definition truthy :: "jsstring option \<Rightarrow> bool" where
  "truthy v = (case v of None \<Rightarrow> False | Some s \<Rightarrow> s \<noteq> [])"

text \<open>\<open>Number.prototype.toString\<close> on a non-negative integer: its decimal digits.\<close>

fun toString :: "nat \<Rightarrow> jsstring" where
  "toString n =
     (if n < 10 then [0x30 + of_nat n]
      else toString (n div 10) @ [0x30 + of_nat (n mod 10)])"

declare toString.simps [simp del]

subsection \<open>Messages, frames and the session cache\<close>

datatype Role = User | Assistant

record MessageImage =
  id_i :: jsstring
  base64 :: jsstring
  mimeType :: jsstring

record Message =
  id_m :: jsstring
  role :: Role
  content :: jsstring
  timestamp :: nat
  images :: "MessageImage list option"
  isStreaming_m :: "bool option"

record SessionCache =
  messages :: "Message list"
  isStreaming :: bool
  streamingMessageId :: "jsstring option"
  isLoading :: bool

text \<open>
  \<open>Partial<SessionCache>\<close>: every key may be absent (\<open>None\<close>). The key
  \<open>streamingMessageId\<close>, when present, carries a \<open>string | null\<close>.
\<close>

record PartialSessionCache =
  p_messages :: "Message list option"
  p_isStreaming :: "bool option"
  p_streamingMessageId :: "jsstring option option"
  p_isLoading :: "bool option"

definition no_updates :: PartialSessionCache where
  "no_updates = \<lparr>p_messages = None, p_isStreaming = None,
                 p_streamingMessageId = None, p_isLoading = None\<rparr>"

text \<open>The object spread \<open>{ ...base, ...updates }\<close>: keys of \<open>updates\<close> win.\<close>

definition spread :: "SessionCache \<Rightarrow> PartialSessionCache \<Rightarrow> SessionCache" where
  "spread base u =
     \<lparr>messages = (case p_messages u of None \<Rightarrow> messages base | Some v \<Rightarrow> v),
      isStreaming = (case p_isStreaming u of None \<Rightarrow> isStreaming base | Some v \<Rightarrow> v),
      streamingMessageId =
        (case p_streamingMessageId u of None \<Rightarrow> streamingMessageId base | Some v \<Rightarrow> v),
      isLoading = (case p_isLoading u of None \<Rightarrow> isLoading base | Some v \<Rightarrow> v)\<rparr>"

definition default_cache :: SessionCache where
  "default_cache = \<lparr>messages = [], isStreaming = False,
                     streamingMessageId = None, isLoading = False\<rparr>"

text \<open>The data objects the client hands to \<open>wsManager.send\<close>.\<close>

record WireImage =
  w_base64 :: jsstring
  media_type :: jsstring

datatype Frame =
    Subscribe jsstring
  | Chat jsstring jsstring "WireImage list option"
  | Stop jsstring
  | ClearHistory jsstring

text \<open>What goes on the wire is \<open>JSON.stringify(data)\<close>; the serialisation is left symbolic.\<close>

datatype Wire = JSON_stringify Frame

datatype ReadyState = CONNECTING | OPEN | CLOSING | CLOSED

record WebSocket =
  readyState :: ReadyState
  transmitted :: "Wire list"

subsection \<open>State\<close>

text \<open>
  The module-level singletons (\<open>wsManager.ws\<close>, \<open>sessionCacheMap\<close>), the hook's React
  state and refs, and a log of what the hook did to its surroundings: how often
  \<open>notifyCacheUpdate\<close> ran and with which arguments \<open>options.onError\<close> was called.
  \<open>onError\<close> is an optional callback; \<open>hasOnError\<close> says whether the caller gave one.
\<close>

record PendingMessage =
  pm_content :: jsstring
  pm_images :: "MessageImage list option"

record ChatState =
  ws :: "WebSocket option"
  sessionCacheMap :: "jsstring \<rightharpoonup> SessionCache"
  cacheUpdates :: nat
  messages_s :: "Message list"
  currentChatIdRef :: "jsstring option"
  streamingMessageIdRef :: "jsstring option"
  pendingMessageRef :: "PendingMessage option"
  hasOnError :: bool
  onErrorCalls :: "jsstring list"

subsection \<open>WebSocketManager.send\<close>

definition ws_send :: "Frame \<Rightarrow> ChatState \<Rightarrow> bool \<times> ChatState" where
  "ws_send data st =
     (case ws st of
        None \<Rightarrow> (False, st)
      | Some sock \<Rightarrow>
          if readyState sock = OPEN
          then (True, st\<lparr>ws := Some (sock\<lparr>transmitted := transmitted sock @ [JSON_stringify data]\<rparr>)\<rparr>)
          else (False, st))"

subsection \<open>updateSessionCache\<close>

definition notifyCacheUpdate :: "ChatState \<Rightarrow> ChatState" where
  "notifyCacheUpdate st = st\<lparr>cacheUpdates := Suc (cacheUpdates st)\<rparr>"

definition updateSessionCache :: "jsstring \<Rightarrow> PartialSessionCache \<Rightarrow> ChatState \<Rightarrow> ChatState" where
  "updateSessionCache chatId updates st =
     notifyCacheUpdate
       (case sessionCacheMap st chatId of
          Some existing \<Rightarrow>
            st\<lparr>sessionCacheMap := (sessionCacheMap st)(chatId \<mapsto> spread existing updates)\<rparr>
        | None \<Rightarrow>
            st\<lparr>sessionCacheMap := (sessionCacheMap st)(chatId \<mapsto> spread default_cache updates)\<rparr>)"

subsection \<open>sendMessage\<close>

text \<open>The argument of \<open>onError\<close> when the socket is not open: "WebSocket \<open>\<dots>\<close>" followed by
  the three code units U+672A U+8FDE U+63A5.\<close>

definition not_connected_error :: jsstring where
  "not_connected_error =
     [0x57, 0x65, 0x62, 0x53, 0x6F, 0x63, 0x6B, 0x65, 0x74, 0x20, 0x672A, 0x8FDE, 0x63A5]"

definition call_onError :: "jsstring \<Rightarrow> ChatState \<Rightarrow> ChatState" where
  "call_onError e st = (if hasOnError st then st\<lparr>onErrorCalls := onErrorCalls st @ [e]\<rparr> else st)"

definition nonempty_images :: "MessageImage list option \<Rightarrow> bool" where
  "nonempty_images imgs = (case imgs of None \<Rightarrow> False | Some l \<Rightarrow> l \<noteq> [])"

definition to_wire :: "MessageImage \<Rightarrow> WireImage" where
  "to_wire img = \<lparr>w_base64 = base64 img, media_type = mimeType img\<rparr>"

text \<open>
  \<open>sendMessage(content, images, skipLocalMessage)\<close>. \<open>isStreaming_r\<close> is the value of
  \<open>isStreaming\<close> the callback closed over at the last render; \<open>now\<close> is what
  \<open>Date.now()\<close> returns and \<open>date\<close> what \<open>new Date()\<close> returns (milliseconds).
\<close>

definition sendMessage ::
  "bool \<Rightarrow> nat \<Rightarrow> nat \<Rightarrow> jsstring \<Rightarrow> MessageImage list option \<Rightarrow> bool \<Rightarrow> ChatState
     \<Rightarrow> ChatState" where
  "sendMessage isStreaming_r now date content_a images_a skipLocalMessage st =
     (if (trim content_a = [] \<and> \<not> nonempty_images images_a) \<or> \<not> truthy (currentChatIdRef st)
      then st
      else
        let activeChatId = the (currentChatIdRef st);
            st1 = (if isStreaming_r then st\<lparr>streamingMessageIdRef := None\<rparr> else st);
            userMessage = \<lparr>id_m = toString now, role = User, content = trim content_a,
                           timestamp = date,
                           images = (if nonempty_images images_a then images_a else None),
                           isStreaming_m = None\<rparr>;
            st2 = (if skipLocalMessage then st1
                   else st1\<lparr>messages_s := messages_s st1 @ [userMessage]\<rparr>);
            st3 = updateSessionCache activeChatId
                    (no_updates\<lparr>p_isLoading := Some True, p_isStreaming := Some False\<rparr>) st2;
            messageData = Chat activeChatId (trim content_a)
                            (if nonempty_images images_a
                             then Some (map to_wire (the images_a)) else None);
            (sent, st4) = ws_send messageData st3
        in if sent then st4\<lparr>pendingMessageRef := None\<rparr>
           else call_onError not_connected_error
                  ((updateSessionCache activeChatId (no_updates\<lparr>p_isLoading := Some False\<rparr>) st4)
                     \<lparr>pendingMessageRef := None\<rparr>))"

subsection \<open>ChatInput.handleSend\<close>

record ImageData =
  id_d :: jsstring
  d_base64 :: jsstring
  d_mimeType :: jsstring
  preview :: jsstring

record ChatInputState =
  input :: jsstring
  images_c :: "ImageData list"

text \<open>
  The result's first component is the call of \<open>onSend\<close> that \<open>handleSend\<close> makes, if any:
  its two arguments.
\<close>

definition handleSend ::
  "bool \<Rightarrow> ChatInputState \<Rightarrow> (jsstring \<times> ImageData list option) option \<times> ChatInputState" where
  "handleSend disabled st =
     (if (trim (input st) \<noteq> [] \<or> images_c st \<noteq> []) \<and> \<not> disabled
      then (Some (input st, if images_c st \<noteq> [] then Some (images_c st) else None),
            st\<lparr>input := [], images_c := []\<rparr>)
      else (None, st))"

subsection \<open>handleMessage: the cases processing_state, stream_start and text_delta\<close>

record StreamingState =
  is_streaming :: bool
  current_content :: jsstring

text \<open>
  Case \<open>'processing_state'\<close>, with the fields \<open>chat_id\<close>, \<open>is_processing\<close> and
  \<open>streaming_state\<close> (an object or \<open>null\<close>) of the message. \<open>current_content || ''\<close>
  yields the content, the empty string being the only falsy string. The state updater
  given to \<open>setMessages\<close> is applied at once.
\<close>

definition handle_processing_state ::
  "nat \<Rightarrow> nat \<Rightarrow> jsstring \<Rightarrow> bool \<Rightarrow> StreamingState option \<Rightarrow> ChatState \<Rightarrow> ChatState" where
  "handle_processing_state now date processingChatId is_processing streamingState st =
     (if Some processingChatId = currentChatIdRef st \<and> is_processing
      then
        let st1 = updateSessionCache processingChatId (no_updates\<lparr>p_isLoading := Some True\<rparr>) st
        in (case streamingState of
              None \<Rightarrow> st1
            | Some ss \<Rightarrow>
                if is_streaming ss
                then
                  let newMessageId = toString now;
                      streamingMessage =
                        \<lparr>id_m = newMessageId, role = Assistant,
                         content = (if current_content ss \<noteq> [] then current_content ss else []),
                         timestamp = date, images = None, isStreaming_m = Some True\<rparr>;
                      st2 = st1\<lparr>streamingMessageIdRef := Some newMessageId\<rparr>;
                      st3 = updateSessionCache processingChatId
                              (no_updates\<lparr>p_isStreaming := Some True,
                                          p_streamingMessageId := Some (Some newMessageId)\<rparr>) st2;
                      prev = messages_s st3
                  in st3\<lparr>messages_s :=
                           (if prev \<noteq> [] \<and> role (last prev) = User then prev @ [streamingMessage]
                            else if prev \<noteq> [] \<and> role (last prev) = Assistant
                            then butlast prev @ [streamingMessage]
                            else prev @ [streamingMessage])\<rparr>
                else st1)
      else st)"

text \<open>Case \<open>'stream_start'\<close>.\<close>

definition handle_stream_start :: "nat \<Rightarrow> nat \<Rightarrow> jsstring \<Rightarrow> ChatState \<Rightarrow> ChatState" where
  "handle_stream_start now date streamChatId st =
     (let newMessageId = toString now;
          streamingMessage = \<lparr>id_m = newMessageId, role = Assistant, content = [],
                              timestamp = date, images = None, isStreaming_m = Some True\<rparr>;
          st1 = (if Some streamChatId = currentChatIdRef st
                 then st\<lparr>streamingMessageIdRef := Some newMessageId,
                         messages_s := messages_s st @ [streamingMessage]\<rparr>
                 else st);
          st2 = (case sessionCacheMap st1 streamChatId of
                   Some cached \<Rightarrow>
                     st1\<lparr>sessionCacheMap := (sessionCacheMap st1)(streamChatId \<mapsto>
                            \<lparr>messages = messages cached @ [streamingMessage], isStreaming = True,
                             streamingMessageId = Some newMessageId, isLoading = True\<rparr>)\<rparr>
                 | None \<Rightarrow>
                     st1\<lparr>sessionCacheMap := (sessionCacheMap st1)(streamChatId \<mapsto>
                            \<lparr>messages = [streamingMessage], isStreaming = True,
                             streamingMessageId = Some newMessageId, isLoading = True\<rparr>)\<rparr>)
      in notifyCacheUpdate st2)"

text \<open>Case \<open>'text_delta'\<close>: first the hook's own messages, then the cache entry.\<close>

definition handle_text_delta :: "jsstring \<Rightarrow> jsstring \<Rightarrow> ChatState \<Rightarrow> ChatState" where
  "handle_text_delta deltaChatId delta st =
     (let st1 =
            (if Some deltaChatId = currentChatIdRef st \<and> truthy (streamingMessageIdRef st)
             then
               let prev = messages_s st; lastIndex = int (length prev) - 1
               in if lastIndex \<ge> 0 \<and> Some (id_m (prev ! nat lastIndex)) = streamingMessageIdRef st
                  then st\<lparr>messages_s :=
                            prev[nat lastIndex :=
                                   (prev ! nat lastIndex)
                                     \<lparr>content := content (prev ! nat lastIndex) @ delta\<rparr>]\<rparr>
                  else st
             else st)
      in case sessionCacheMap st1 deltaChatId of
           None \<Rightarrow> st1
         | Some cached \<Rightarrow>
             if truthy (streamingMessageId cached)
             then st1\<lparr>sessionCacheMap := (sessionCacheMap st1)(deltaChatId \<mapsto>
                        cached\<lparr>messages :=
                                 map (\<lambda>m. if Some (id_m m) = streamingMessageId cached
                                          then m\<lparr>content := content m @ delta\<rparr> else m)
                                     (messages cached)\<rparr>)\<rparr>
             else st1)"

subsection \<open>Example client states\<close>

definition example_message :: Message where
  "example_message =
     \<lparr>id_m = [0x37], role = Assistant, content = [0x68, 0x69], timestamp = 7, images = None,
      isStreaming_m = Some True\<rparr>"

definition client_of :: "ReadyState \<Rightarrow> ChatState" where
  "client_of rs =
     \<lparr>ws = Some \<lparr>readyState = rs, transmitted = []\<rparr>, sessionCacheMap = Map.empty,
      cacheUpdates = 0, messages_s = [], currentChatIdRef = Some [0x63, 0x31],
      streamingMessageIdRef = None, pendingMessageRef = None, hasOnError = True,
      onErrorCalls = []\<rparr>"

section \<open>Server side: the Agent Session\<close>

text \<open>
  Of the Python module \<open>agent_session.py\<close> the sources hold what the backend README
  quotes: the body of \<open>send_message\<close> and the filter loop of \<open>_run_query\<close>. These two
  are translated from the quoted lines. What the quoted lines use without declaring it,
  and \<open>cancel\<close>, of which nothing is quoted, follow the specification of the Agent
  Session.
\<close>

subsection \<open>Events, queries and the session state\<close>

text \<open>Modelled from the spec: the Event kinds (the Python message classes are not in the
  sources). Cost and duration of a \<open>QueryResult\<close> are natural numbers of some fixed unit.\<close>

datatype Payload =
    TextDelta jsstring
  | ToolInvoked jsstring
  | ToolResult jsstring
  | StreamEnded
  | QueryResult bool nat nat
  | QueryCancelled
  | QueryFailed jsstring

text \<open>Modelled from the spec: an event carries the QueryId it belongs to. A session serves
  one conversation, so the ConversationId is left out.\<close>

record Event =
  queryId :: nat
  payload :: Payload

text \<open>Modelled from the spec: the states of a Query (no such type is in the sources).\<close>

datatype QueryState = Pending | Streaming | Completed | Cancelled | Superseded | Failed

text \<open>Modelled from the spec: who holds the session's lock. A \<open>send\<close> holds it from the
  allocation of its QueryId (which it remembers) to the spawn of its task, a \<open>cancel\<close>
  while it waits for the task it interrupted.\<close>

datatype LockHolder = Sending nat | Cancelling

text \<open>
  Modelled from the spec: SessionState (\<open>activeQueryId\<close>, \<open>runningTask\<close>,
  \<open>cancelledFlag\<close>), the counter \<open>lastId\<close> (\<open>self._query_id\<close> in the README excerpt) and the
  session's event queue, kept as the list of all events appended so far. A task handle
  is the QueryId the task runs; \<open>unfinished\<close> lists the tasks that were spawned and have
  not exited, so a handle is done when its query is not in the list. \<open>queries\<close> gives each
  query its state. The remaining fields record what the session did to its
  surroundings: how often it asked the runtime to interrupt, how many timeouts it
  logged, and the QueryIds that \<open>send\<close> returned, oldest first.
\<close>

record AgentSession =
  lastId :: nat
  activeQueryId :: "nat option"
  runningTask :: "nat option"
  cancelledFlag :: bool
  lockHolder :: "LockHolder option"
  unfinished :: "nat list"
  queue :: "Event list"
  queries :: "nat \<rightharpoonup> QueryState"
  interrupts :: nat
  timeoutsLogged :: nat
  assigned :: "nat list"

text \<open>Modelled from the spec: a session that has not accepted any input yet.\<close>

definition new_session :: AgentSession where
  "new_session =
     \<lparr>lastId = 0, activeQueryId = None, runningTask = None, cancelledFlag = False,
      lockHolder = None, unfinished = [], queue = [], queries = Map.empty, interrupts = 0,
      timeoutsLogged = 0, assigned = []\<rparr>"

text \<open>Modelled from the spec: "a previous query is Streaming (\<open>runningTask\<close> set and not
  finished)"; in the README excerpt \<open>self._current_task and not self._current_task.done()\<close>.\<close>

definition task_running :: "AgentSession \<Rightarrow> bool" where
  "task_running s = (case runningTask s of None \<Rightarrow> False | Some q \<Rightarrow> q \<in> set (unfinished s))"

text \<open>Modelled from the spec: a query leaves Streaming for a terminal state; terminal states
  are immutable.\<close>

definition finish :: "nat \<Rightarrow> QueryState \<Rightarrow> AgentSession \<Rightarrow> AgentSession" where
  "finish q terminal s =
     (if queries s q = Some Streaming then s\<lparr>queries := (queries s)(q \<mapsto> terminal)\<rparr> else s)"

subsection \<open>The draining filter of the query task\<close>

text \<open>
  The body of the loop of \<open>_run_query\<close>, as the README quotes it, for one message of
  the runtime inside the task of query \<open>query_id\<close>: \<open>if self._cancelled: continue\<close>,
  \<open>if query_id != self._active_query_id: continue\<close>,
  \<open>await self._message_queue.put(message)\<close>. The event put on the queue carries the
  QueryId of its task.
\<close>

definition drain :: "nat \<Rightarrow> Payload \<Rightarrow> AgentSession \<Rightarrow> AgentSession" where
  "drain query_id message s =
     (if cancelledFlag s then s
      else if Some query_id \<noteq> activeQueryId s then s
      else s\<lparr>queue := queue s @ [\<lparr>queryId = query_id, payload = message\<rparr>]\<rparr>)"

text \<open>The loop \<open>async for message in client.receive_response()\<close> over a stretch of the
  response during which nothing else touches the session.\<close>

definition run_query :: "nat \<Rightarrow> Payload list \<Rightarrow> AgentSession \<Rightarrow> AgentSession" where
  "run_query query_id response s = foldl (\<lambda>s' message. drain query_id message s') s response"

text \<open>Modelled from the spec: the task of query \<open>q\<close> runs to its end; the query is Completed
  if it was still Streaming.\<close>

definition task_exit :: "nat \<Rightarrow> AgentSession \<Rightarrow> AgentSession" where
  "task_exit q s = (finish q Completed s)\<lparr>unfinished := removeAll q (unfinished s)\<rparr>"

text \<open>Modelled from the spec: failure semantics. The runtime call fails; the task emits
  \<open>QueryFailed\<close> once, through the filter, and the query is Failed if it was still
  Streaming.\<close>

definition task_fail :: "nat \<Rightarrow> jsstring \<Rightarrow> AgentSession \<Rightarrow> AgentSession" where
  "task_fail q reason s =
     (finish q Failed (drain q (QueryFailed reason) s))\<lparr>unfinished := removeAll q (unfinished s)\<rparr>"

subsection \<open>send_message and cancel\<close>

text \<open>
  \<open>send_message\<close> as the README quotes it, up to its wait: under the lock,
  \<open>self._query_id += 1\<close>, \<open>current_query_id = self._query_id\<close>, and, if
  \<open>self._current_task and not self._current_task.done()\<close>, \<open>self._cancelled = True\<close> and
  \<open>await self._client.interrupt()\<close>. Modelled from the spec, the quoted lines having no
  query states: the new query is Pending and the previous one, if Streaming, is
  superseded here.
\<close>

definition send_begin :: "AgentSession \<Rightarrow> AgentSession" where
  "send_begin s =
     (let newId = lastId s + 1;
          s1 = s\<lparr>lastId := newId, lockHolder := Some (Sending newId),
                 queries := (queries s)(newId \<mapsto> Pending)\<rparr>
      in if task_running s1
         then (finish (the (runningTask s1)) Superseded s1)
                \<lparr>cancelledFlag := True, interrupts := Suc (interrupts s1)\<rparr>
         else s1)"

text \<open>Modelled from the spec: a wait that ends with the awaited task still running has timed
  out; the timeout is logged.\<close>

definition log_timeout :: "AgentSession \<Rightarrow> AgentSession" where
  "log_timeout s = (if task_running s then s\<lparr>timeoutsLogged := Suc (timeoutsLogged s)\<rparr> else s)"

text \<open>
  The last three quoted lines of \<open>send_message\<close>: \<open>self._cancelled = False\<close>,
  \<open>self._active_query_id = current_query_id\<close>, \<open>self._current_task =
  asyncio.create_task(self._run_query(...))\<close>; then the lock is released. Modelled from
  the spec: the new query is Streaming and its QueryId is returned; run with the
  previous task still there, this is step 3 after a wait that timed out.
\<close>

definition send_end :: "AgentSession \<Rightarrow> AgentSession" where
  "send_end s =
     (case lockHolder s of
        Some (Sending newId) \<Rightarrow>
          (log_timeout s)
            \<lparr>cancelledFlag := False, activeQueryId := Some newId, runningTask := Some newId,
             unfinished := unfinished s @ [newId], queries := (queries s)(newId \<mapsto> Streaming),
             lockHolder := None, assigned := assigned s @ [newId]\<rparr>
      | _ \<Rightarrow> s)"

text \<open>
  An exception leaves \<open>send_message\<close> during its wait: \<open>async with\<close> releases the lock and
  nothing else is done, so the flag stays set and \<open>_active_query_id\<close> and
  \<open>_current_task\<close> stay what they were.
\<close>

definition send_raise :: "AgentSession \<Rightarrow> AgentSession" where
  "send_raise s = s\<lparr>lockHolder := None\<rparr>"

text \<open>Modelled from the spec: \<open>cancel\<close>, which is missing with \<open>agent_session.py\<close>, up to
  its wait. With no Streaming query it releases
  the lock at once and returns false.\<close>

definition cancel_begin :: "AgentSession \<Rightarrow> bool \<times> AgentSession" where
  "cancel_begin s =
     (if task_running s
      then (True, (finish (the (runningTask s)) Cancelled s)
                    \<lparr>cancelledFlag := True, interrupts := Suc (interrupts s),
                     lockHolder := Some Cancelling\<rparr>)
      else (False, s))"

text \<open>Modelled from the spec: \<open>cancel\<close> after its wait releases the lock.\<close>

definition cancel_end :: "AgentSession \<Rightarrow> AgentSession" where
  "cancel_end s =
     (case lockHolder s of
        Some Cancelling \<Rightarrow> (log_timeout s)\<lparr>lockHolder := None\<rparr>
      | _ \<Rightarrow> s)"

text \<open>The exception of \<open>asyncio.wait_for\<close>.\<close>

datatype PyError = TimeoutError

text \<open>\<open>timeout=5.0\<close> of the quoted \<open>asyncio.wait_for\<close>, in milliseconds.\<close>

definition interrupt_timeout :: nat where
  "interrupt_timeout = 5000"

text \<open>
  \<open>asyncio.wait_for(task, timeout)\<close> for a task that exits after \<open>t\<close> milliseconds
  (\<open>Some t\<close>) or never (\<open>None\<close>): it returns when the task is done in time and raises
  \<open>TimeoutError\<close> otherwise; the second component is the time waited.
\<close>

definition wait_for :: "nat option \<Rightarrow> nat \<Rightarrow> (PyError + unit) \<times> nat" where
  "wait_for exits_after timeout =
     (case exits_after of
        None \<Rightarrow> (Inl TimeoutError, timeout)
      | Some t \<Rightarrow> if t \<le> timeout then (Inr (), t) else (Inl TimeoutError, timeout))"

text \<open>
  A whole call of \<open>send_message\<close> as the README quotes it, once it holds the lock. The
  quoted body has no handler around \<open>await asyncio.wait_for(self._current_task,
  timeout=5.0)\<close>: when the wait times out, \<open>TimeoutError\<close> leaves \<open>send_message\<close> and the
  three lines after the wait are not run. The events the previous task receives during
  the wait are discarded by the filter, the flag being set, so what is left of the wait
  is whether that task has exited. The result is the exception or the QueryId, the time
  waited and the new state. The message text plays no part and is left out.
\<close>

definition send_message ::
  "nat option \<Rightarrow> AgentSession \<Rightarrow> (PyError + nat) \<times> nat \<times> AgentSession" where
  "send_message exits_after s =
     (let s1 = send_begin s
      in if task_running s
         then (case wait_for exits_after interrupt_timeout of
                 (Inl e, elapsed) \<Rightarrow> (Inl e, elapsed, send_raise s1)
               | (Inr u, elapsed) \<Rightarrow>
                   (Inr (lastId s1), elapsed, send_end (task_exit (the (runningTask s)) s1)))
         else (Inr (lastId s1), 0, send_end s1))"

text \<open>Modelled from the spec: the wait of \<open>cancel\<close> for the task \<open>prev\<close> it interrupted, up to
  the same timeout; \<open>cancel\<close> goes on whether or not the wait timed out.\<close>

definition cancel_wait :: "nat option \<Rightarrow> nat \<Rightarrow> AgentSession \<Rightarrow> AgentSession \<times> nat" where
  "cancel_wait exits_after prev s =
     (case wait_for exits_after interrupt_timeout of
        (Inr u, elapsed) \<Rightarrow> (task_exit prev s, elapsed)
      | (Inl e, elapsed) \<Rightarrow> (s, elapsed))"

text \<open>Modelled from the spec: a whole call of \<open>cancel\<close>, once it holds the lock.\<close>

definition cancel :: "nat option \<Rightarrow> AgentSession \<Rightarrow> bool \<times> nat \<times> AgentSession" where
  "cancel exits_after s =
     (case cancel_begin s of
        (False, s') \<Rightarrow> (False, 0, s')
      | (True, s1) \<Rightarrow>
          let (s2, elapsed) = cancel_wait exits_after (the (runningTask s)) s1
          in (True, elapsed, cancel_end s2))"

subsection \<open>The session as a transition system\<close>

text \<open>
  What can happen to a session, one atomic step at a time. The two halves of
  \<open>send_message\<close> and of \<open>cancel\<close> are steps of their own, so that events and task exits
  can fall into the wait between them; a step that needs the lock is not enabled
  (\<open>None\<close>) while another call holds it. The wait of \<open>send_message\<close> for a task that is
  still running can end in two ways: by \<open>SendEnd\<close>, as the specification has it, or by
  \<open>SendTimeout\<close>, the \<open>TimeoutError\<close> of the quoted code. Only a task that has not exited
  can emit, exit or fail.
\<close>

datatype Action =
    SendBegin | SendEnd | SendTimeout | CancelBegin | CancelEnd
  | Emit nat Payload | TaskExit nat | TaskFail nat jsstring

text \<open>One step; \<open>None\<close> when the step is not enabled.\<close>

fun step :: "AgentSession \<Rightarrow> Action \<Rightarrow> AgentSession option" where
  "step s SendBegin = (if lockHolder s = None then Some (send_begin s) else None)"
| "step s SendEnd = (case lockHolder s of Some (Sending n) \<Rightarrow> Some (send_end s) | _ \<Rightarrow> None)"
| "step s SendTimeout =
     (case lockHolder s of
        Some (Sending n) \<Rightarrow> if task_running s then Some (send_raise s) else None
      | _ \<Rightarrow> None)"
| "step s CancelBegin = (if lockHolder s = None then Some (snd (cancel_begin s)) else None)"
| "step s CancelEnd = (if lockHolder s = Some Cancelling then Some (cancel_end s) else None)"
| "step s (Emit q m) = (if q \<in> set (unfinished s) then Some (drain q m s) else None)"
| "step s (TaskExit q) = (if q \<in> set (unfinished s) then Some (task_exit q s) else None)"
| "step s (TaskFail q r) = (if q \<in> set (unfinished s) then Some (task_fail q r s) else None)"

text \<open>A sequence of steps, each enabled where it is taken.\<close>

fun run :: "AgentSession \<Rightarrow> Action list \<Rightarrow> AgentSession option" where
  "run s [] = Some s"
| "run s (a # as) = (case step s a of None \<Rightarrow> None | Some s' \<Rightarrow> run s' as)"

subsection \<open>Invariants\<close>

text \<open>What holds in every state a new session can reach.\<close>

definition Inv :: "AgentSession \<Rightarrow> bool" where
  "Inv s \<longleftrightarrow>
     (\<forall>q. queries s q = Some Streaming \<longrightarrow>
        runningTask s = Some q \<and> q \<in> set (unfinished s) \<and> activeQueryId s = Some q
        \<and> \<not> cancelledFlag s \<and> lockHolder s = None \<and> q = lastId s \<and> 1 \<le> q)
   \<and> (\<forall>n. lockHolder s = Some (Sending n) \<longrightarrow>
         n = lastId s \<and> 1 \<le> n \<and> (\<forall>a \<in> set (assigned s). a < n))
   \<and> (\<forall>a \<in> set (assigned s). 1 \<le> a \<and> a \<le> lastId s)
   \<and> sorted_wrt (<) (assigned s)
   \<and> activeQueryId s = (if assigned s = [] then None else Some (last (assigned s)))"



section \<open>Server side: the Connection Hub\<close>

text \<open>
  The Python module \<open>session_manager.py\<close> is not among the sources. The messages below
  are those the client's \<open>handleMessage\<close> switches on; what the hub does with them
  follows the specification of the Connection Hub.
\<close>

text \<open>The server messages of a stream, as the client reads them: \<open>type\<close> and the fields
  \<open>chat_id\<close>, \<open>messages\<close>, \<open>is_processing\<close>, \<open>streaming_state\<close>, \<open>delta\<close>.\<close>

datatype ServerMsg =
    M_history jsstring "Message list"
  | M_processing_state jsstring bool "StreamingState option"
  | M_stream_start jsstring
  | M_text_delta jsstring jsstring
  | M_stream_end jsstring

text \<open>Modelled from the spec: the hub of one conversation, missing with
  \<open>session_manager.py\<close>: its attached connections, whether
  a query is Streaming, the partial text accumulated so far, and what has been
  delivered to each connection, in order.\<close>

record Hub =
  conversationId :: jsstring
  attached :: "nat list"
  query_streaming :: bool
  partial_text :: jsstring
  delivered :: "nat \<Rightarrow> ServerMsg list"

text \<open>Modelled from the spec: fan-out of one message to every attached connection.\<close>

definition broadcast :: "ServerMsg \<Rightarrow> Hub \<Rightarrow> Hub" where
  "broadcast m h =
     h\<lparr>delivered := (\<lambda>c. if c \<in> set (attached h) then delivered h c @ [m] else delivered h c)\<rparr>"

text \<open>Modelled from the spec: a query starts streaming; the partial text starts empty.\<close>

definition hub_stream_start :: "Hub \<Rightarrow> Hub" where
  "hub_stream_start h =
     broadcast (M_stream_start (conversationId h)) (h\<lparr>query_streaming := True, partial_text := []\<rparr>)"

text \<open>Modelled from the spec: a \<open>TextDelta\<close> of the session's event stream is added to the
  partial text and fanned out.\<close>

definition hub_text_delta :: "jsstring \<Rightarrow> Hub \<Rightarrow> Hub" where
  "hub_text_delta d h =
     broadcast (M_text_delta (conversationId h) d) (h\<lparr>partial_text := partial_text h @ d\<rparr>)"

text \<open>Modelled from the spec: several deltas, in the order of the event stream.\<close>

definition hub_text_deltas :: "jsstring list \<Rightarrow> Hub \<Rightarrow> Hub" where
  "hub_text_deltas ds h = foldl (\<lambda>h' d. hub_text_delta d h') h ds"

text \<open>Modelled from the spec: \<open>attach\<close>, missing with \<open>session_manager.py\<close>, registers
  the connection and sends it, in order,
  the history (which the Chat Store supplies) and, if a query is Streaming, the resume
  event with the partial text accumulated so far.\<close>

definition attach :: "nat \<Rightarrow> Message list \<Rightarrow> Hub \<Rightarrow> Hub" where
  "attach c history h =
     (let h1 = h\<lparr>attached := attached h @ [c]\<rparr>;
          h2 = h1\<lparr>delivered := (delivered h1)(c := delivered h1 c @ [M_history (conversationId h) history])\<rparr>
      in if query_streaming h2
         then h2\<lparr>delivered := (delivered h2)(c := delivered h2 c @
                    [M_processing_state (conversationId h) True
                       (Some \<lparr>is_streaming = True, current_content = partial_text h2\<rparr>)])\<rparr>
         else h2)"

text \<open>The payloads of the text deltas among some messages, in order.\<close>

fun text_deltas :: "ServerMsg list \<Rightarrow> jsstring list" where
  "text_deltas [] = []"
| "text_deltas (M_text_delta c d # ms) = d # text_deltas ms"
| "text_deltas (m # ms) = text_deltas ms"

text \<open>The client handles several \<open>text_delta\<close> messages of one chat, in order.\<close>

definition handle_text_deltas :: "jsstring \<Rightarrow> jsstring list \<Rightarrow> ChatState \<Rightarrow> ChatState" where
  "handle_text_deltas chat ds st = foldl (\<lambda>st' d. handle_text_delta chat d st') st ds"

text \<open>The text the hook shows in the message it is streaming into, if there is one.\<close>

definition streaming_text :: "ChatState \<Rightarrow> jsstring option" where
  "streaming_text st =
     (if messages_s st \<noteq> [] \<and> Some (id_m (last (messages_s st))) = streamingMessageIdRef st
      then Some (content (last (messages_s st))) else None)"

definition example_hub :: Hub where
  "example_hub =
     \<lparr>conversationId = [0x63, 0x31], attached = [1], query_streaming = False,
      partial_text = [], delivered = (\<lambda>c. [])\<rparr>"

section \<open>Server side: the Session Registry\<close>

text \<open>
  The registry is part of \<open>session_manager.py\<close>, which is not among the sources. The
  definitions follow the specification of the Session Registry: a map from
  ConversationId to the live session, changed only under the registry's own lock.
\<close>

text \<open>Modelled from the spec: where a caller of \<open>getOrCreate\<close> stands: not calling, waiting
  for the registry lock, holding the lock before the lookup, holding the lock while it
  creates the session the lookup did not find, or returned with a session instance.\<close>

datatype Pc =
    Idle
  | Waiting jsstring
  | Looking jsstring
  | Creating jsstring
  | Returned jsstring nat

text \<open>Modelled from the spec: the registry, missing with \<open>session_manager.py\<close>. A session
  instance is the position at which it
  was created: \<open>created\<close> lists, for every instance ever created, the ConversationId it
  was created for; \<open>destroyed\<close> lists the instances torn down. \<open>pc\<close> is the place of each
  caller.\<close>

record Registry =
  sessions :: "jsstring \<rightharpoonup> nat"
  created :: "jsstring list"
  destroyed :: "nat list"
  registry_lock :: "nat option"
  pc :: "nat \<Rightarrow> Pc"

text \<open>Modelled from the spec: the registry at process start.\<close>

definition new_registry :: Registry where
  "new_registry = \<lparr>sessions = Map.empty, created = [], destroyed = [], registry_lock = None,
                    pc = (\<lambda>t. Idle)\<rparr>"

text \<open>
  Modelled from the spec: the atomic steps of concurrent callers of \<open>getOrCreate\<close>, which
  is missing with \<open>session_manager.py\<close>. \<open>getOrCreate\<close> by caller
  \<open>t\<close> is the call, the acquisition of the lock (enabled only while the lock is free),
  the lookup (which returns the session found and releases the lock) and, after a miss,
  the creation (which stores the new session, releases the lock and returns it); the
  steps of different callers interleave in any order. \<open>Destroy\<close> is the teardown of the
  session of a conversation, under the lock.
\<close>

datatype RegAction =
    Call nat jsstring
  | Acquire nat
  | Lookup nat
  | Create nat
  | Destroy jsstring

text \<open>Modelled from the spec: one step of the registry; \<open>None\<close> when it is not enabled.\<close>

fun reg_step :: "Registry \<Rightarrow> RegAction \<Rightarrow> Registry option" where
  "reg_step r (Call t cid) =
     (case pc r t of
        Idle \<Rightarrow> Some (r\<lparr>pc := (pc r)(t := Waiting cid)\<rparr>)
      | Returned c h \<Rightarrow> Some (r\<lparr>pc := (pc r)(t := Waiting cid)\<rparr>)
      | _ \<Rightarrow> None)"
| "reg_step r (Acquire t) =
     (case pc r t of
        Waiting cid \<Rightarrow>
          if registry_lock r = None
          then Some (r\<lparr>registry_lock := Some t, pc := (pc r)(t := Looking cid)\<rparr>)
          else None
      | _ \<Rightarrow> None)"
| "reg_step r (Lookup t) =
     (case pc r t of
        Looking cid \<Rightarrow>
          (case sessions r cid of
             Some h \<Rightarrow> Some (r\<lparr>registry_lock := None, pc := (pc r)(t := Returned cid h)\<rparr>)
           | None \<Rightarrow> Some (r\<lparr>pc := (pc r)(t := Creating cid)\<rparr>))
      | _ \<Rightarrow> None)"
| "reg_step r (Create t) =
     (case pc r t of
        Creating cid \<Rightarrow>
          Some (r\<lparr>sessions := (sessions r)(cid \<mapsto> length (created r)),
                  created := created r @ [cid],
                  registry_lock := None,
                  pc := (pc r)(t := Returned cid (length (created r)))\<rparr>)
      | _ \<Rightarrow> None)"
| "reg_step r (Destroy cid) =
     (if registry_lock r = None
      then (case sessions r cid of
              Some h \<Rightarrow> Some (r\<lparr>sessions := (sessions r)(cid := None),
                                 destroyed := h # destroyed r\<rparr>)
            | None \<Rightarrow> Some r)
      else None)"

text \<open>Modelled from the spec: a sequence of steps of the registry.\<close>

fun reg_run :: "Registry \<Rightarrow> RegAction list \<Rightarrow> Registry option" where
  "reg_run r [] = Some r"
| "reg_run r (a # as) = (case reg_step r a of None \<Rightarrow> None | Some r' \<Rightarrow> reg_run r' as)"

text \<open>The step is a teardown.\<close>

fun is_destroy :: "RegAction \<Rightarrow> bool" where
  "is_destroy (Destroy cid) = True"
| "is_destroy a = False"

text \<open>The session instance \<open>h\<close> exists: it was created and has not been destroyed.\<close>

definition exists_now :: "Registry \<Rightarrow> nat \<Rightarrow> bool" where
  "exists_now r h \<longleftrightarrow> h < length (created r) \<and> h \<notin> set (destroyed r)"

text \<open>What holds in every state the registry can reach.\<close>

definition RInv :: "Registry \<Rightarrow> bool" where
  "RInv r \<longleftrightarrow>
     (\<forall>t cid. pc r t = Looking cid \<or> pc r t = Creating cid \<longrightarrow> registry_lock r = Some t)
   \<and> (\<forall>t cid. pc r t = Creating cid \<longrightarrow> sessions r cid = None)
   \<and> (\<forall>cid h. sessions r cid = Some h \<longrightarrow> exists_now r h \<and> created r ! h = cid)
   \<and> (\<forall>h. exists_now r h \<longrightarrow> sessions r (created r ! h) = Some h)
   \<and> (\<forall>t cid h. pc r t = Returned cid h \<longrightarrow> h < length (created r) \<and> created r ! h = cid)
   \<and> (\<forall>h \<in> set (destroyed r). h < length (created r))"

section \<open>Properties of the client\<close>

lemma all_dropWhile: "(\<forall>x \<in> set (dropWhile P s). P x) \<longleftrightarrow> (\<forall>x \<in> set s. P x)"
  by (induction s) auto

lemma trim_empty_iff: "trim s = [] \<longleftrightarrow> (\<forall>c \<in> set s. isWhiteSpace c)"
  by (simp add: trim_def all_dropWhile)

text \<open>
  Claim C10. \<open>updateSessionCache(chatId, updates)\<close> changes the session cache at the key
  \<open>chatId\<close> only. There, each of the four fields of the new entry is the value the
  updates give it when they have that key, and otherwise the value of the entry that
  was there or, when there was none, the default: no messages, not streaming, no
  streaming message id, not loading. The entry of every other chat id is what it was.
\<close>

theorem updateSessionCache_frame:
  "sessionCacheMap (updateSessionCache chatId updates st) chatId =
     Some \<lparr>messages =
              (case p_messages updates of
                 Some v \<Rightarrow> v
               | None \<Rightarrow> (case sessionCacheMap st chatId of
                            Some existing \<Rightarrow> messages existing | None \<Rightarrow> [])),
           isStreaming =
              (case p_isStreaming updates of
                 Some v \<Rightarrow> v
               | None \<Rightarrow> (case sessionCacheMap st chatId of
                            Some existing \<Rightarrow> isStreaming existing | None \<Rightarrow> False)),
           streamingMessageId =
              (case p_streamingMessageId updates of
                 Some v \<Rightarrow> v
               | None \<Rightarrow> (case sessionCacheMap st chatId of
                            Some existing \<Rightarrow> streamingMessageId existing | None \<Rightarrow> None)),
           isLoading =
              (case p_isLoading updates of
                 Some v \<Rightarrow> v
               | None \<Rightarrow> (case sessionCacheMap st chatId of
                            Some existing \<Rightarrow> isLoading existing | None \<Rightarrow> False))\<rparr>
   \<and> (\<forall>other. other \<noteq> chatId \<longrightarrow>
         sessionCacheMap (updateSessionCache chatId updates st) other = sessionCacheMap st other)"
  by (simp add: updateSessionCache_def notifyCacheUpdate_def spread_def default_cache_def
           split: option.split)

theorem updateSessionCache_frame_witness:
  "sessionCacheMap
     (updateSessionCache [0x61]
        \<lparr>p_messages = None, p_isStreaming = Some False,
         p_streamingMessageId = Some None, p_isLoading = None\<rparr>
        ((client_of OPEN)
           \<lparr>sessionCacheMap :=
              [[0x61] \<mapsto> \<lparr>messages = [example_message], isStreaming = True,
                            streamingMessageId = Some [0x37], isLoading = True\<rparr>,
               [0x62] \<mapsto> default_cache]\<rparr>)) [0x61]
     = Some \<lparr>messages = [example_message], isStreaming = False,
             streamingMessageId = None, isLoading = True\<rparr>
   \<and> sessionCacheMap
     (updateSessionCache [0x61]
        \<lparr>p_messages = None, p_isStreaming = Some False,
         p_streamingMessageId = Some None, p_isLoading = None\<rparr>
        ((client_of OPEN)
           \<lparr>sessionCacheMap :=
              [[0x61] \<mapsto> \<lparr>messages = [example_message], isStreaming = True,
                            streamingMessageId = Some [0x37], isLoading = True\<rparr>,
               [0x62] \<mapsto> default_cache]\<rparr>)) [0x62]
     = Some default_cache
   \<and> sessionCacheMap
     (updateSessionCache [0x61]
        \<lparr>p_messages = Some [example_message], p_isStreaming = None,
         p_streamingMessageId = Some (Some [0x37]), p_isLoading = Some True\<rparr>
        (client_of OPEN)) [0x61]
     = Some \<lparr>messages = [example_message], isStreaming = False,
             streamingMessageId = Some [0x37], isLoading = True\<rparr>
   \<and> sessionCacheMap
     (updateSessionCache [0x61]
        \<lparr>p_messages = Some [example_message], p_isStreaming = None,
         p_streamingMessageId = Some (Some [0x37]), p_isLoading = Some True\<rparr>
        (client_of OPEN)) [0x62]
     = None"
  using updateSessionCache_frame [where chatId = "[0x61]"
      and updates = "\<lparr>p_messages = None, p_isStreaming = Some False,
         p_streamingMessageId = Some None, p_isLoading = None\<rparr>"
      and st = "(client_of OPEN)
           \<lparr>sessionCacheMap :=
              [[0x61] \<mapsto> \<lparr>messages = [example_message], isStreaming = True,
                            streamingMessageId = Some [0x37], isLoading = True\<rparr>,
               [0x62] \<mapsto> default_cache]\<rparr>"]
    updateSessionCache_frame [where chatId = "[0x61]"
      and updates = "\<lparr>p_messages = Some [example_message], p_isStreaming = None,
         p_streamingMessageId = Some (Some [0x37]), p_isLoading = Some True\<rparr>"
      and st = "client_of OPEN"]
  by (simp add: client_of_def default_cache_def)

lemma ws_send_closed:
  "(\<forall>sock. ws st = Some sock \<longrightarrow> readyState sock \<noteq> OPEN) \<Longrightarrow> ws_send data st = (False, st)"
  by (simp add: ws_send_def split: option.split)

lemma updateSessionCache_fields:
  "ws (updateSessionCache c u st) = ws st"
  "onErrorCalls (updateSessionCache c u st) = onErrorCalls st"
  "hasOnError (updateSessionCache c u st) = hasOnError st"
  "currentChatIdRef (updateSessionCache c u st) = currentChatIdRef st"
  "streamingMessageIdRef (updateSessionCache c u st) = streamingMessageIdRef st"
  "messages_s (updateSessionCache c u st) = messages_s st"
  by (simp_all add: updateSessionCache_def notifyCacheUpdate_def split: option.split)

lemma updateSessionCache_isLoading:
  "\<exists>e. sessionCacheMap (updateSessionCache c (no_updates\<lparr>p_isLoading := Some b\<rparr>) st) c = Some e
        \<and> isLoading e = b"
  by (simp add: updateSessionCache_def notifyCacheUpdate_def spread_def split: option.split)

lemma sendMessage_not_open:
  assumes closed: "\<forall>sock. ws st = Some sock \<longrightarrow> readyState sock \<noteq> OPEN"
    and accepted: "\<not> (trim content_a = [] \<and> \<not> nonempty_images images_a)"
    and chat: "currentChatIdRef st = Some chatId" "chatId \<noteq> []"
  shows "ws (sendMessage r now date content_a images_a skip st) = ws st"
    and "\<exists>e. sessionCacheMap (sendMessage r now date content_a images_a skip st) chatId = Some e
             \<and> \<not> isLoading e"
    and "onErrorCalls (sendMessage r now date content_a images_a skip st) =
           (if hasOnError st then onErrorCalls st @ [not_connected_error] else onErrorCalls st)"
    and "pendingMessageRef (sendMessage r now date content_a images_a skip st) = None"
proof -
  have sent: "ws_send d st' = (False, st')" if "ws st' = ws st" for d st'
    using closed that by (simp add: ws_send_closed)
  note defs = sendMessage_def truthy_def Let_def sent updateSessionCache_fields call_onError_def
  show "ws (sendMessage r now date content_a images_a skip st) = ws st"
    using accepted chat by (auto simp add: defs)
  show "\<exists>e. sessionCacheMap (sendMessage r now date content_a images_a skip st) chatId = Some e
             \<and> \<not> isLoading e"
    using accepted chat updateSessionCache_isLoading [of chatId False]
    by (auto simp add: defs)
  show "onErrorCalls (sendMessage r now date content_a images_a skip st) =
           (if hasOnError st then onErrorCalls st @ [not_connected_error] else onErrorCalls st)"
    using accepted chat by (auto simp add: defs)
  show "pendingMessageRef (sendMessage r now date content_a images_a skip st) = None"
    using accepted chat by (auto simp add: defs)
qed

text \<open>
  Claim C9. \<open>WebSocketManager.send(data)\<close> returns true exactly when there is a socket and
  it is OPEN, and then it has handed the serialised frame to the socket; with no socket,
  or a socket that is CONNECTING, CLOSING or CLOSED, it returns false and changes
  nothing. When \<open>sendMessage\<close> has accepted its input and the socket is not open, it sends
  nothing, leaves \<open>isLoading\<close> false in the chat's cache entry, clears the pending
  message and calls \<open>onError\<close> (when the caller gave one) with the not-connected text;
  it returns normally.
\<close>

theorem ws_send_only_when_open:
  "(fst (ws_send data st) \<longleftrightarrow> (\<exists>sock. ws st = Some sock \<and> readyState sock = OPEN))
   \<and> (\<forall>sock. ws st = Some sock \<and> readyState sock = OPEN \<longrightarrow>
         ws_send data st =
           (True, st\<lparr>ws := Some (sock\<lparr>transmitted := transmitted sock @ [JSON_stringify data]\<rparr>)\<rparr>))
   \<and> ((\<forall>sock. ws st = Some sock \<longrightarrow> readyState sock \<noteq> OPEN) \<longrightarrow>
         ws_send data st = (False, st)
         \<and> (\<forall>chatId. \<not> (trim content_a = [] \<and> \<not> nonempty_images images_a)
                \<and> currentChatIdRef st = Some chatId \<and> chatId \<noteq> [] \<longrightarrow>
              ws (sendMessage r now date content_a images_a skip st) = ws st
              \<and> (\<exists>e. sessionCacheMap (sendMessage r now date content_a images_a skip st) chatId = Some e
                     \<and> \<not> isLoading e)
              \<and> onErrorCalls (sendMessage r now date content_a images_a skip st) =
                  (if hasOnError st then onErrorCalls st @ [not_connected_error]
                   else onErrorCalls st)
              \<and> pendingMessageRef (sendMessage r now date content_a images_a skip st) = None))"
proof (intro conjI allI impI)
  show "fst (ws_send data st) \<longleftrightarrow> (\<exists>sock. ws st = Some sock \<and> readyState sock = OPEN)"
    by (simp add: ws_send_def split: option.split)
next
  fix sock assume "ws st = Some sock \<and> readyState sock = OPEN"
  then show "ws_send data st =
      (True, st\<lparr>ws := Some (sock\<lparr>transmitted := transmitted sock @ [JSON_stringify data]\<rparr>)\<rparr>)"
    by (simp add: ws_send_def)
next
  assume "\<forall>sock. ws st = Some sock \<longrightarrow> readyState sock \<noteq> OPEN"
  then show "ws_send data st = (False, st)"
    by (rule ws_send_closed)
next
  fix chatId
  assume closed: "\<forall>sock. ws st = Some sock \<longrightarrow> readyState sock \<noteq> OPEN"
    and h: "\<not> (trim content_a = [] \<and> \<not> nonempty_images images_a)
            \<and> currentChatIdRef st = Some chatId \<and> chatId \<noteq> []"
  from h have a: "\<not> (trim content_a = [] \<and> \<not> nonempty_images images_a)"
    and c: "currentChatIdRef st = Some chatId" and n: "chatId \<noteq> []"
    by simp_all
  note r = sendMessage_not_open [OF closed a c n]
  show "ws (sendMessage r now date content_a images_a skip st) = ws st" by (rule r(1))
  show "\<exists>e. sessionCacheMap (sendMessage r now date content_a images_a skip st) chatId = Some e
             \<and> \<not> isLoading e" by (rule r(2))
  show "onErrorCalls (sendMessage r now date content_a images_a skip st) =
           (if hasOnError st then onErrorCalls st @ [not_connected_error] else onErrorCalls st)"
    by (rule r(3))
  show "pendingMessageRef (sendMessage r now date content_a images_a skip st) = None" by (rule r(4))
qed

theorem ws_send_only_when_open_witness:
  "ws_send (Stop [0x63, 0x31]) (client_of OPEN) =
     (True, (client_of OPEN)\<lparr>ws := Some \<lparr>readyState = OPEN,
                                           transmitted = [JSON_stringify (Stop [0x63, 0x31])]\<rparr>\<rparr>)
   \<and> ws_send (Stop [0x63, 0x31]) (client_of CLOSING) = (False, client_of CLOSING)
   \<and> ws (sendMessage False 7 7 [0x68, 0x69] None False (client_of CLOSING)) = ws (client_of CLOSING)
   \<and> (\<exists>e. sessionCacheMap (sendMessage False 7 7 [0x68, 0x69] None False (client_of CLOSING))
              [0x63, 0x31] = Some e \<and> \<not> isLoading e)
   \<and> onErrorCalls (sendMessage False 7 7 [0x68, 0x69] None False (client_of CLOSING))
       = [not_connected_error]"
  using ws_send_only_when_open [where st = "client_of OPEN" and data = "Stop [0x63, 0x31]"]
    ws_send_only_when_open [where st = "client_of CLOSING" and data = "Stop [0x63, 0x31]"
      and content_a = "[0x68, 0x69]" and images_a = None and r = False and now = 7 and date = 7
      and skip = False]
  by (simp add: client_of_def trim_def isWhiteSpace_def nonempty_images_def)

text \<open>
  Claim C7. A submit whose text is empty or consists of white space only, with no image
  attached, goes nowhere: \<open>ChatInput.handleSend\<close> does not call \<open>onSend\<close> and keeps its
  state, and \<open>sendMessage\<close>, if called with such input all the same, returns at its first
  line with the whole state as it was, so no frame is handed to the socket, no message
  is added and no cache entry is touched. The server allocates a QueryId only when a
  chat frame arrives, and none is sent.
\<close>

theorem empty_submit_rejected:
  assumes "\<forall>c \<in> set text_a. isWhiteSpace c"
    and "images_a = None \<or> images_a = Some []"
  shows "sendMessage r now date text_a images_a skip st = st
       \<and> handleSend disabled \<lparr>input = text_a, images_c = []\<rparr>
           = (None, \<lparr>input = text_a, images_c = []\<rparr>)"
  using assms
  by (auto simp add: sendMessage_def handleSend_def trim_empty_iff nonempty_images_def)

theorem empty_submit_rejected_witness:
  "isWhiteSpace 0x20 \<and> isWhiteSpace 0x3000 \<and> isWhiteSpace 0x0A
   \<and> sendMessage False 1700000000000 1700000000000 [0x20, 0x3000, 0x0A] (Some []) False
        (client_of OPEN) = client_of OPEN
   \<and> transmitted (the (ws (sendMessage False 1700000000000 1700000000000 [0x20, 0x3000, 0x0A]
        (Some []) False (client_of OPEN)))) = []
   \<and> handleSend False \<lparr>input = [0x20, 0x3000, 0x0A], images_c = []\<rparr>
        = (None, \<lparr>input = [0x20, 0x3000, 0x0A], images_c = []\<rparr>)"
  using empty_submit_rejected [of "[0x20, 0x3000, 0x0A]" "Some []" False 1700000000000
      1700000000000 False "client_of OPEN" False]
  by (simp add: isWhiteSpace_def client_of_def)

section \<open>Properties of the Agent Session\<close>

lemma run_query_closed:
  "cancelledFlag s \<or> activeQueryId s \<noteq> Some q \<Longrightarrow> run_query q ms s = s"
  unfolding run_query_def by (induction ms) (auto simp add: drain_def)

lemma run_query_open:
  "\<not> cancelledFlag s \<Longrightarrow> activeQueryId s = Some q \<Longrightarrow>
   run_query q ms s = s\<lparr>queue := queue s @ map (\<lambda>m. \<lparr>queryId = q, payload = m\<rparr>) ms\<rparr>"
  unfolding run_query_def
proof (induction ms arbitrary: s)
  case Nil
  then show ?case by simp
next
  case (Cons m ms)
  have d: "drain q m s = s\<lparr>queue := queue s @ [\<lparr>queryId = q, payload = m\<rparr>]\<rparr>"
    using Cons.prems by (simp add: drain_def)
  have "foldl (\<lambda>s' message. drain q message s') (drain q m s) ms =
        (drain q m s)\<lparr>queue := queue (drain q m s) @ map (\<lambda>m. \<lparr>queryId = q, payload = m\<rparr>) ms\<rparr>"
    using Cons.prems by (intro Cons.IH) (simp_all add: d)
  then show ?case by (simp add: d)
qed

text \<open>
  Claim C1. For every event the runtime produces inside the task of a query, the
  draining filter does exactly one of three things: with the cancelled flag set it
  discards the event; otherwise, with an active QueryId other than the event's, it
  discards the event; otherwise it appends the event to the session's queue. So the
  queue changes, by this one event at its end, if and only if the flag is clear and the
  event's QueryId is the active one, and nothing but the queue ever changes. Over a
  stretch of the response during which nothing else touches the session, the loop
  forwards either all of the events, in order, or none.
\<close>

theorem drain_three_way:
  "(cancelledFlag s \<longrightarrow> drain q m s = s)
   \<and> (\<not> cancelledFlag s \<and> activeQueryId s \<noteq> Some q \<longrightarrow> drain q m s = s)
   \<and> (\<not> cancelledFlag s \<and> activeQueryId s = Some q \<longrightarrow>
        drain q m s = s\<lparr>queue := queue s @ [\<lparr>queryId = q, payload = m\<rparr>]\<rparr>)
   \<and> (queue (drain q m s) \<noteq> queue s \<longleftrightarrow> \<not> cancelledFlag s \<and> activeQueryId s = Some q)
   \<and> run_query q ms s =
       (if \<not> cancelledFlag s \<and> activeQueryId s = Some q
        then s\<lparr>queue := queue s @ map (\<lambda>m. \<lparr>queryId = q, payload = m\<rparr>) ms\<rparr>
        else s)"
proof -
  have "run_query q ms s =
       (if \<not> cancelledFlag s \<and> activeQueryId s = Some q
        then s\<lparr>queue := queue s @ map (\<lambda>m. \<lparr>queryId = q, payload = m\<rparr>) ms\<rparr>
        else s)"
    using run_query_closed [of s q ms] run_query_open [of s q ms] by auto
  moreover have "(cancelledFlag s \<longrightarrow> drain q m s = s)
   \<and> (\<not> cancelledFlag s \<and> activeQueryId s \<noteq> Some q \<longrightarrow> drain q m s = s)
   \<and> (\<not> cancelledFlag s \<and> activeQueryId s = Some q \<longrightarrow>
        drain q m s = s\<lparr>queue := queue s @ [\<lparr>queryId = q, payload = m\<rparr>]\<rparr>)
   \<and> (queue (drain q m s) \<noteq> queue s \<longleftrightarrow> \<not> cancelledFlag s \<and> activeQueryId s = Some q)"
    by (auto simp add: drain_def)
  ultimately show ?thesis by blast
qed

theorem drain_three_way_witness:
  "drain 1 StreamEnded (new_session\<lparr>cancelledFlag := True, activeQueryId := Some 1\<rparr>)
     = new_session\<lparr>cancelledFlag := True, activeQueryId := Some 1\<rparr>
   \<and> drain 1 StreamEnded (new_session\<lparr>activeQueryId := Some 2\<rparr>)
     = new_session\<lparr>activeQueryId := Some 2\<rparr>
   \<and> queue (drain 2 StreamEnded (new_session\<lparr>activeQueryId := Some 2\<rparr>))
     = [\<lparr>queryId = 2, payload = StreamEnded\<rparr>]"
  using drain_three_way [where s = "new_session\<lparr>cancelledFlag := True, activeQueryId := Some 1\<rparr>"
      and q = 1 and m = StreamEnded]
    drain_three_way [where s = "new_session\<lparr>activeQueryId := Some 2\<rparr>" and q = 1
      and m = StreamEnded]
    drain_three_way [where s = "new_session\<lparr>activeQueryId := Some 2\<rparr>" and q = 2
      and m = StreamEnded]
  by (simp add: new_session_def)

lemma Inv_new: "Inv new_session"
  by (simp add: Inv_def new_session_def)

lemma finish_fields [simp]:
  "lastId (finish q t s) = lastId s"
  "activeQueryId (finish q t s) = activeQueryId s"
  "runningTask (finish q t s) = runningTask s"
  "cancelledFlag (finish q t s) = cancelledFlag s"
  "lockHolder (finish q t s) = lockHolder s"
  "unfinished (finish q t s) = unfinished s"
  "queue (finish q t s) = queue s"
  "assigned (finish q t s) = assigned s"
  "interrupts (finish q t s) = interrupts s"
  "timeoutsLogged (finish q t s) = timeoutsLogged s"
  by (simp_all add: finish_def)

lemma finish_queries:
  "queries (finish q t s) q' =
     (if q' = q \<and> queries s q = Some Streaming then Some t else queries s q')"
  by (simp add: finish_def)

lemma drain_fields [simp]:
  "lastId (drain q m s) = lastId s"
  "activeQueryId (drain q m s) = activeQueryId s"
  "runningTask (drain q m s) = runningTask s"
  "cancelledFlag (drain q m s) = cancelledFlag s"
  "lockHolder (drain q m s) = lockHolder s"
  "unfinished (drain q m s) = unfinished s"
  "queries (drain q m s) = queries s"
  "assigned (drain q m s) = assigned s"
  by (simp_all add: drain_def)

lemma log_timeout_fields [simp]:
  "lastId (log_timeout s) = lastId s"
  "activeQueryId (log_timeout s) = activeQueryId s"
  "runningTask (log_timeout s) = runningTask s"
  "cancelledFlag (log_timeout s) = cancelledFlag s"
  "lockHolder (log_timeout s) = lockHolder s"
  "unfinished (log_timeout s) = unfinished s"
  "queue (log_timeout s) = queue s"
  "queries (log_timeout s) = queries s"
  "assigned (log_timeout s) = assigned s"
  "interrupts (log_timeout s) = interrupts s"
  by (simp_all add: log_timeout_def)

lemma Inv_send_begin: "Inv s \<Longrightarrow> lockHolder s = None \<Longrightarrow> Inv (send_begin s)"
  by (auto simp add: Inv_def send_begin_def Let_def task_running_def finish_queries
           split: option.splits if_splits)

lemma Inv_send_end:
  assumes "Inv s" and "lockHolder s = Some (Sending n)"
  shows "Inv (send_end s)"
proof -
  have n: "n = lastId s" "1 \<le> n" "\<forall>a \<in> set (assigned s). a < n"
    and srt: "sorted_wrt (<) (assigned s)" and bnd: "\<forall>a \<in> set (assigned s). 1 \<le> a \<and> a \<le> lastId s"
    and nostream: "\<forall>q. queries s q \<noteq> Some Streaming"
    using assms by (auto simp add: Inv_def)
  have "sorted_wrt (<) (assigned s @ [n])"
    using srt n(3) by (simp add: sorted_wrt_append)
  then show ?thesis
    using assms(2) n bnd nostream by (simp add: Inv_def send_end_def)
qed

lemma Inv_send_raise: "Inv s \<Longrightarrow> lockHolder s = Some (Sending n) \<Longrightarrow> Inv (send_raise s)"
  by (auto simp add: Inv_def send_raise_def)

lemma Inv_cancel_begin: "Inv s \<Longrightarrow> lockHolder s = None \<Longrightarrow> Inv (snd (cancel_begin s))"
  by (auto simp add: Inv_def cancel_begin_def task_running_def finish_queries
           split: option.splits if_splits)

lemma Inv_cancel_end: "Inv s \<Longrightarrow> lockHolder s = Some Cancelling \<Longrightarrow> Inv (cancel_end s)"
  by (auto simp add: Inv_def cancel_end_def)

lemma Inv_drain_eq: "Inv (drain q m s) = Inv s"
  by (simp add: Inv_def)

lemma Inv_drain: "Inv s \<Longrightarrow> Inv (drain q m s)"
  by (simp add: Inv_drain_eq)

lemma Inv_task_exit: "Inv s \<Longrightarrow> Inv (task_exit q s)"
  by (auto simp add: Inv_def task_exit_def finish_queries split: if_splits)

lemma Inv_task_fail: "Inv s \<Longrightarrow> Inv (task_fail q r s)"
  by (auto simp add: Inv_def task_fail_def finish_queries split: if_splits)

lemma Inv_step: "Inv s \<Longrightarrow> step s a = Some s' \<Longrightarrow> Inv s'"
  by (cases a)
     (auto simp add: Inv_send_begin Inv_send_end Inv_send_raise Inv_cancel_begin Inv_cancel_end
        Inv_drain Inv_task_exit Inv_task_fail split: if_splits option.splits LockHolder.splits)

lemma Inv_run: "Inv s \<Longrightarrow> run s as = Some s' \<Longrightarrow> Inv s'"
  by (induction as arbitrary: s) (auto split: option.splits dest: Inv_step)









lemma Max_strictly_sorted:
  fixes xs :: "nat list"
  shows "sorted_wrt (<) xs \<Longrightarrow> xs \<noteq> [] \<Longrightarrow> Max (set xs) = last xs"
proof (induction xs)
  case Nil
  then show ?case by simp
next
  case (Cons x xs)
  show ?case
  proof (cases "xs = []")
    case True
    then show ?thesis by simp
  next
    case False
    with Cons have ih: "Max (set xs) = last xs" by simp
    from Cons.prems(1) False have "x < last xs" by simp
    with ih False show ?thesis by (simp add: max_def)
  qed
qed

lemma send_begin_fields:
  "lastId (send_begin s) = Suc (lastId s)"
  "lockHolder (send_begin s) = Some (Sending (Suc (lastId s)))"
  "assigned (send_begin s) = assigned s"
  "queue (send_begin s) = queue s"
  "runningTask (send_begin s) = runningTask s"
  "unfinished (send_begin s) = unfinished s"
  "activeQueryId (send_begin s) = activeQueryId s"
  "cancelledFlag (send_begin s) = (cancelledFlag s \<or> task_running s)"
  by (auto simp add: send_begin_def Let_def task_running_def split: option.splits)

lemma task_exit_fields:
  "lastId (task_exit q s) = lastId s"
  "lockHolder (task_exit q s) = lockHolder s"
  "assigned (task_exit q s) = assigned s"
  "queue (task_exit q s) = queue s"
  "runningTask (task_exit q s) = runningTask s"
  "unfinished (task_exit q s) = removeAll q (unfinished s)"
  "activeQueryId (task_exit q s) = activeQueryId s"
  "cancelledFlag (task_exit q s) = cancelledFlag s"
  by (simp_all add: task_exit_def)

lemma send_end_fields:
  assumes "lockHolder s = Some (Sending n)"
  shows "lastId (send_end s) = lastId s"
    and "lockHolder (send_end s) = None"
    and "assigned (send_end s) = assigned s @ [n]"
    and "queue (send_end s) = queue s"
    and "runningTask (send_end s) = Some n"
    and "unfinished (send_end s) = unfinished s @ [n]"
    and "activeQueryId (send_end s) = Some n"
    and "cancelledFlag (send_end s) = False"
    and "queries (send_end s) n = Some Streaming"
  using assms by (simp_all add: send_end_def log_timeout_def)

lemma send_message_cases:
  "(\<exists>elapsed. send_message ex s = (Inl TimeoutError, elapsed, send_raise (send_begin s))
               \<and> task_running s)
   \<or> (\<exists>elapsed s2. send_message ex s = (Inr (Suc (lastId s)), elapsed, send_end s2)
          \<and> lockHolder s2 = Some (Sending (Suc (lastId s))) \<and> lastId s2 = Suc (lastId s)
          \<and> assigned s2 = assigned s)"
proof (cases "task_running s")
  case False
  then have "send_message ex s = (Inr (Suc (lastId s)), 0, send_end (send_begin s))"
    by (simp add: send_message_def Let_def send_begin_fields)
  then show ?thesis by (auto simp add: send_begin_fields)
next
  case True
  show ?thesis
  proof (cases "\<exists>t. ex = Some t \<and> t \<le> interrupt_timeout")
    case True
    then obtain t where t: "ex = Some t" "t \<le> interrupt_timeout" by blast
    have "send_message ex s =
        (Inr (Suc (lastId s)), t, send_end (task_exit (the (runningTask s)) (send_begin s)))"
      using \<open>task_running s\<close> t by (simp add: send_message_def Let_def wait_for_def send_begin_fields)
    then show ?thesis by (auto simp add: send_begin_fields task_exit_fields)
  next
    case False
    then have "wait_for ex interrupt_timeout = (Inl TimeoutError, interrupt_timeout)"
      by (auto simp add: wait_for_def split: option.splits)
    then have "send_message ex s =
        (Inl TimeoutError, interrupt_timeout, send_raise (send_begin s))"
      using \<open>task_running s\<close> by (simp add: send_message_def Let_def)
    then show ?thesis using \<open>task_running s\<close> by auto
  qed
qed

text \<open>
  Claim C3, as stated, fails between the two halves of a send. After a first send and
  the first half of a second, QueryId 2 is allocated, \<open>lastId\<close> is 2 and query 2 exists,
  Pending, while the active QueryId is still 1.
\<close>

theorem allocated_id_not_active:
  "run new_session [SendBegin, SendEnd, SendBegin]
     = Some (send_begin (send_end (send_begin new_session)))
   \<and> lastId (send_begin (send_end (send_begin new_session))) = 2
   \<and> queries (send_begin (send_end (send_begin new_session))) 2 = Some Pending
   \<and> activeQueryId (send_begin (send_end (send_begin new_session))) = Some 1
   \<and> activeQueryId (send_begin (send_end (send_begin new_session)))
       \<noteq> Some (lastId (send_begin (send_end (send_begin new_session))))"
  by (simp add: new_session_def send_begin_def send_end_def finish_def
        task_running_def log_timeout_def Let_def)

text \<open>
  Claim C3, amended. In every state a session can reach, the QueryIds that
  \<open>send_message\<close> has returned are strictly increasing, none exceeds \<open>lastId\<close>, and the
  active QueryId is the highest of them (there is none before the first). While a send
  is between the allocation of its QueryId and the spawn of its task, that QueryId is
  \<open>lastId\<close>, has not been returned and is not the active one. A query that is Streaming
  has the highest QueryId allocated, and it is the active one. Every call of
  \<open>send_message\<close> leaves \<open>lastId\<close> one higher, and a call that returns a QueryId returns
  the previous \<open>lastId\<close> plus one and makes it the active one.
\<close>

theorem query_ids_increasing:
  assumes "run new_session as = Some s"
  shows "sorted_wrt (<) (assigned s)
       \<and> (\<forall>a \<in> set (assigned s). a \<le> lastId s)
       \<and> (assigned s \<noteq> [] \<longrightarrow> activeQueryId s = Some (Max (set (assigned s))))
       \<and> (assigned s = [] \<longrightarrow> activeQueryId s = None)
       \<and> (\<forall>n. lockHolder s = Some (Sending n) \<longrightarrow>
             lastId s = n \<and> n \<notin> set (assigned s) \<and> activeQueryId s \<noteq> Some n)
       \<and> (\<forall>q. queries s q = Some Streaming \<longrightarrow> q = lastId s \<and> activeQueryId s = Some q)
       \<and> (\<forall>ex. lastId (snd (snd (send_message ex s))) = lastId s + 1
             \<and> (\<forall>newId. fst (send_message ex s) = Inr newId \<longrightarrow>
                   newId = lastId s + 1
                   \<and> assigned (snd (snd (send_message ex s))) = assigned s @ [newId]
                   \<and> activeQueryId (snd (snd (send_message ex s))) = Some newId))"
proof -
  have inv: "Inv s" using Inv_run [OF Inv_new assms] .
  have srt: "sorted_wrt (<) (assigned s)" using inv by (simp add: Inv_def)
  have bnd: "\<forall>a \<in> set (assigned s). a \<le> lastId s" using inv by (simp add: Inv_def)
  have act: "activeQueryId s = (if assigned s = [] then None else Some (last (assigned s)))"
    using inv by (simp add: Inv_def)
  have hi: "assigned s \<noteq> [] \<longrightarrow> activeQueryId s = Some (Max (set (assigned s)))"
    using act Max_strictly_sorted [OF srt] by simp
  have none: "assigned s = [] \<longrightarrow> activeQueryId s = None"
    using act by simp
  have window: "lastId s = n \<and> n \<notin> set (assigned s) \<and> activeQueryId s \<noteq> Some n"
    if l: "lockHolder s = Some (Sending n)" for n
  proof -
    from inv l have n: "n = lastId s" and lt: "\<forall>a \<in> set (assigned s). a < n"
      unfolding Inv_def by blast+
    from lt have notin: "n \<notin> set (assigned s)" by auto
    have "activeQueryId s \<noteq> Some n"
    proof (cases "assigned s = []")
      case True
      with act show ?thesis by simp
    next
      case False
      then have "last (assigned s) \<in> set (assigned s)" by simp
      with lt have "last (assigned s) < n" by blast
      with act False show ?thesis by simp
    qed
    with n notin show ?thesis by simp
  qed
  have snd_part: "lastId (snd (snd (send_message ex s))) = lastId s + 1
             \<and> (\<forall>newId. fst (send_message ex s) = Inr newId \<longrightarrow>
                   newId = lastId s + 1
                   \<and> assigned (snd (snd (send_message ex s))) = assigned s @ [newId]
                   \<and> activeQueryId (snd (snd (send_message ex s))) = Some newId)" for ex
    using send_message_cases [of ex s]
    by (auto simp add: send_end_fields send_raise_def send_begin_fields)
  have streaming: "q = lastId s \<and> activeQueryId s = Some q" if "queries s q = Some Streaming" for q
    using inv that unfolding Inv_def by blast
  have w: "\<forall>n. lockHolder s = Some (Sending n) \<longrightarrow>
             lastId s = n \<and> n \<notin> set (assigned s) \<and> activeQueryId s \<noteq> Some n"
    using window by blast
  have st: "\<forall>q. queries s q = Some Streaming \<longrightarrow> q = lastId s \<and> activeQueryId s = Some q"
    using streaming by blast
  have sp: "\<forall>ex. lastId (snd (snd (send_message ex s))) = lastId s + 1
             \<and> (\<forall>newId. fst (send_message ex s) = Inr newId \<longrightarrow>
                   newId = lastId s + 1
                   \<and> assigned (snd (snd (send_message ex s))) = assigned s @ [newId]
                   \<and> activeQueryId (snd (snd (send_message ex s))) = Some newId)"
    using snd_part by (rule allI)
  from srt bnd hi none w st sp show ?thesis
    by (intro conjI)
qed

theorem query_ids_increasing_witness:
  "run new_session [SendBegin, SendEnd, SendBegin, SendEnd]
     = Some (send_end (send_begin (send_end (send_begin new_session))))
   \<and> sorted_wrt (<) (assigned (send_end (send_begin (send_end (send_begin new_session)))))
   \<and> assigned (send_end (send_begin (send_end (send_begin new_session)))) = [1, 2]
   \<and> activeQueryId (send_end (send_begin (send_end (send_begin new_session)))) = Some 2
   \<and> fst (send_message (Some 40) (send_end (send_begin (send_end (send_begin new_session)))))
       = Inr 3
   \<and> activeQueryId (snd (snd (send_message (Some 40)
         (send_end (send_begin (send_end (send_begin new_session))))))) = Some 3"
proof -
  note defs = send_message_def wait_for_def interrupt_timeout_def task_exit_def
    new_session_def send_begin_def send_end_def finish_def task_running_def log_timeout_def
    Let_def
  have r: "run new_session [SendBegin, SendEnd, SendBegin, SendEnd]
     = Some (send_end (send_begin (send_end (send_begin new_session))))"
    by (simp add: defs)
  have "sorted_wrt (<) (assigned (send_end (send_begin (send_end (send_begin new_session)))))"
    using query_ids_increasing [OF r] by (rule conjunct1)
  moreover have "assigned (send_end (send_begin (send_end (send_begin new_session)))) = [1, 2]"
    by (simp add: defs)
  moreover have "activeQueryId (send_end (send_begin (send_end (send_begin new_session)))) = Some 2"
    by (simp add: defs)
  moreover have "fst (send_message (Some 40)
      (send_end (send_begin (send_end (send_begin new_session))))) = Inr 3"
    by (simp add: defs)
  moreover have "activeQueryId (snd (snd (send_message (Some 40)
         (send_end (send_begin (send_end (send_begin new_session))))))) = Some 3"
    by (simp add: defs)
  ultimately show ?thesis using r by (intro conjI)
qed



text \<open>
  Claim C6. \<open>cancel\<close> called while no query is Streaming returns false, without waiting,
  and leaves the whole session state as it was: \<open>activeQueryId\<close>, \<open>cancelledFlag\<close>,
  \<open>runningTask\<close>, the event queue and everything else.
\<close>

theorem cancel_idle: "\<not> task_running s \<Longrightarrow> cancel ex s = (False, 0, s)"
  by (simp add: cancel_def cancel_begin_def)

theorem cancel_idle_witness:
  "\<not> task_running new_session \<and> cancel None new_session = (False, 0, new_session)
   \<and> \<not> task_running (task_exit 1 (send_end (send_begin new_session)))
   \<and> cancel (Some 3) (task_exit 1 (send_end (send_begin new_session)))
       = (False, 0, task_exit 1 (send_end (send_begin new_session)))"
  using cancel_idle [where s = new_session and ex = None]
    cancel_idle [where s = "task_exit 1 (send_end (send_begin new_session))" and ex = "Some 3"]
  by (simp add: new_session_def send_begin_def send_end_def finish_def task_exit_def
        task_running_def log_timeout_def Let_def)

section \<open>Properties of the resume snapshot\<close>

lemma toString_nonempty: "toString n \<noteq> []"
  by (subst toString.simps) simp

lemma hub_text_deltas_fields:
  "conversationId (hub_text_deltas ds h) = conversationId h"
  "attached (hub_text_deltas ds h) = attached h"
  "query_streaming (hub_text_deltas ds h) = query_streaming h"
  "partial_text (hub_text_deltas ds h) = partial_text h @ concat ds"
  by (induction ds arbitrary: h)
     (simp_all add: hub_text_deltas_def hub_text_delta_def broadcast_def)

lemma hub_text_deltas_delivered:
  "delivered (hub_text_deltas ds h) c =
     (if c \<in> set (attached h) then delivered h c @ map (M_text_delta (conversationId h)) ds
      else delivered h c)"
  by (induction ds arbitrary: h)
     (simp_all add: hub_text_deltas_def hub_text_delta_def broadcast_def)

lemma text_deltas_append: "text_deltas (xs @ ys) = text_deltas xs @ text_deltas ys"
  by (induction xs rule: text_deltas.induct) simp_all

lemma text_deltas_map: "text_deltas (map (M_text_delta c) ds) = ds"
  by (induction ds) simp_all

lemma handle_text_delta_streaming:
  assumes "currentChatIdRef st = Some chat" and "streamingMessageIdRef st = Some i" and "i \<noteq> []"
    and "messages_s st \<noteq> []" and "id_m (last (messages_s st)) = i"
  shows "currentChatIdRef (handle_text_delta chat d st) = Some chat"
    and "streamingMessageIdRef (handle_text_delta chat d st) = Some i"
    and "messages_s (handle_text_delta chat d st) \<noteq> []"
    and "id_m (last (messages_s (handle_text_delta chat d st))) = i"
    and "content (last (messages_s (handle_text_delta chat d st))) = content (last (messages_s st)) @ d"
proof -
  have n: "nat (int (length (messages_s st)) - 1) = length (messages_s st) - 1" by simp
  have l: "messages_s st ! (length (messages_s st) - Suc 0) = last (messages_s st)"
    using assms(4) by (simp add: last_conv_nth)
  have ms: "messages_s (handle_text_delta chat d st) =
      (messages_s st)[length (messages_s st) - 1 :=
         (last (messages_s st))\<lparr>content := content (last (messages_s st)) @ d\<rparr>]"
    using assms by (simp add: handle_text_delta_def truthy_def Let_def n l split: option.splits)
  show "currentChatIdRef (handle_text_delta chat d st) = Some chat"
    using assms by (simp add: handle_text_delta_def Let_def split: option.splits)
  show "streamingMessageIdRef (handle_text_delta chat d st) = Some i"
    using assms by (simp add: handle_text_delta_def Let_def split: option.splits)
  show "messages_s (handle_text_delta chat d st) \<noteq> []"
    using assms(4) by (simp add: ms)
  show "id_m (last (messages_s (handle_text_delta chat d st))) = i"
    using assms(4,5) by (simp add: ms last_conv_nth)
  show "content (last (messages_s (handle_text_delta chat d st))) = content (last (messages_s st)) @ d"
    using assms(4) by (simp add: ms last_conv_nth)
qed

lemma handle_text_deltas_streaming:
  assumes "currentChatIdRef st = Some chat" and "streamingMessageIdRef st = Some i" and "i \<noteq> []"
    and "messages_s st \<noteq> []" and "id_m (last (messages_s st)) = i"
  shows "streaming_text (handle_text_deltas chat ds st) = Some (content (last (messages_s st)) @ concat ds)"
  using assms
proof (induction ds arbitrary: st)
  case Nil
  then show ?case by (simp add: handle_text_deltas_def streaming_text_def)
next
  case (Cons d ds)
  note h = handle_text_delta_streaming [OF Cons.prems, of d]
  from Cons.IH [OF h(1) h(2) Cons.prems(3) h(3) h(4)]
  show ?case by (simp add: handle_text_deltas_def h(5))
qed

lemma handle_processing_state_resume:
  assumes "currentChatIdRef st = Some chat"
  shows "currentChatIdRef (handle_processing_state now date chat True
            (Some \<lparr>is_streaming = True, current_content = c\<rparr>) st) = Some chat"
    and "streamingMessageIdRef (handle_processing_state now date chat True
            (Some \<lparr>is_streaming = True, current_content = c\<rparr>) st) = Some (toString now)"
    and "messages_s (handle_processing_state now date chat True
            (Some \<lparr>is_streaming = True, current_content = c\<rparr>) st) \<noteq> []"
    and "id_m (last (messages_s (handle_processing_state now date chat True
            (Some \<lparr>is_streaming = True, current_content = c\<rparr>) st))) = toString now"
    and "content (last (messages_s (handle_processing_state now date chat True
            (Some \<lparr>is_streaming = True, current_content = c\<rparr>) st))) = c"
  using assms
  by (simp_all add: handle_processing_state_def Let_def updateSessionCache_fields)

lemma handle_stream_start_fresh:
  assumes "currentChatIdRef st = Some chat"
  shows "currentChatIdRef (handle_stream_start now date chat st) = Some chat"
    and "streamingMessageIdRef (handle_stream_start now date chat st) = Some (toString now)"
    and "messages_s (handle_stream_start now date chat st) \<noteq> []"
    and "id_m (last (messages_s (handle_stream_start now date chat st))) = toString now"
    and "content (last (messages_s (handle_stream_start now date chat st))) = []"
  using assms
  by (simp_all add: handle_stream_start_def Let_def notifyCacheUpdate_def split: option.splits)

text \<open>
  Claim C5. Let connection \<open>a\<close> be attached when a query starts streaming, let the deltas
  \<open>earlier\<close> be delivered, and let connection \<open>b\<close> attach then. The text deltas delivered to
  \<open>a\<close> since the start are exactly \<open>earlier\<close>, and \<open>b\<close> is sent the history and then a
  \<open>processing_state\<close> whose \<open>current_content\<close> is their concatenation. A client showing
  this chat that handles that \<open>processing_state\<close> and then the later deltas \<open>later\<close> shows
  the snapshot followed by \<open>later\<close>, each delta appended to the content: the very text
  the client of \<open>a\<close> shows, which handled \<open>stream_start\<close> and all the deltas.
\<close>

theorem resume_snapshot:
  assumes "a \<in> set (attached h)" and "b \<notin> set (attached h)"
    and "currentChatIdRef st_a = Some (conversationId h)"
    and "currentChatIdRef st_b = Some (conversationId h)"
  shows "text_deltas (drop (length (delivered h a))
            (delivered (hub_text_deltas earlier (hub_stream_start h)) a)) = earlier
       \<and> delivered (attach b history (hub_text_deltas earlier (hub_stream_start h))) b =
           delivered h b @
             [M_history (conversationId h) history,
              M_processing_state (conversationId h) True
                (Some \<lparr>is_streaming = True, current_content = concat earlier\<rparr>)]
       \<and> streaming_text (handle_text_deltas (conversationId h) later
            (handle_processing_state now_b date_b (conversationId h) True
               (Some \<lparr>is_streaming = True, current_content = concat earlier\<rparr>) st_b))
           = Some (concat earlier @ concat later)
       \<and> streaming_text (handle_text_deltas (conversationId h) (earlier @ later)
            (handle_stream_start now_a date_a (conversationId h) st_a))
           = Some (concat earlier @ concat later)"
proof (intro conjI)
  have d: "delivered (hub_stream_start h) a = delivered h a @ [M_stream_start (conversationId h)]"
    using assms(1) by (simp add: hub_stream_start_def broadcast_def)
  have f: "attached (hub_stream_start h) = attached h"
    "conversationId (hub_stream_start h) = conversationId h"
    "partial_text (hub_stream_start h) = []" "query_streaming (hub_stream_start h)"
    by (simp_all add: hub_stream_start_def broadcast_def)
  show "text_deltas (drop (length (delivered h a))
            (delivered (hub_text_deltas earlier (hub_stream_start h)) a)) = earlier"
    using assms(1) by (simp add: hub_text_deltas_delivered f d text_deltas_map)
  have db: "delivered (hub_text_deltas earlier (hub_stream_start h)) b = delivered h b"
    using assms(2) by (simp add: hub_text_deltas_delivered f hub_stream_start_def broadcast_def)
  show "delivered (attach b history (hub_text_deltas earlier (hub_stream_start h))) b =
           delivered h b @
             [M_history (conversationId h) history,
              M_processing_state (conversationId h) True
                (Some \<lparr>is_streaming = True, current_content = concat earlier\<rparr>)]"
    by (simp add: attach_def Let_def hub_text_deltas_fields f db)
  note p = handle_processing_state_resume [OF assms(4), of now_b date_b "concat earlier"]
  show "streaming_text (handle_text_deltas (conversationId h) later
            (handle_processing_state now_b date_b (conversationId h) True
               (Some \<lparr>is_streaming = True, current_content = concat earlier\<rparr>) st_b))
           = Some (concat earlier @ concat later)"
    using handle_text_deltas_streaming [OF p(1) p(2) toString_nonempty p(3) p(4), of later]
    by (simp add: p(5))
  note q = handle_stream_start_fresh [OF assms(3), of now_a date_a]
  show "streaming_text (handle_text_deltas (conversationId h) (earlier @ later)
            (handle_stream_start now_a date_a (conversationId h) st_a))
           = Some (concat earlier @ concat later)"
    using handle_text_deltas_streaming [OF q(1) q(2) toString_nonempty q(3) q(4), of "earlier @ later"]
    by (simp add: q(5))
qed


theorem resume_snapshot_witness:
  "1 \<in> set (attached example_hub) \<and> 2 \<notin> set (attached example_hub)
   \<and> currentChatIdRef (client_of OPEN) = Some (conversationId example_hub)
   \<and> delivered (attach 2 [] (hub_text_deltas [[0x48], [0x69]] (hub_stream_start example_hub))) 2
       = [M_history [0x63, 0x31] [],
          M_processing_state [0x63, 0x31] True
            (Some \<lparr>is_streaming = True, current_content = [0x48, 0x69]\<rparr>)]
   \<and> streaming_text (handle_text_deltas [0x63, 0x31] [[0x21]]
         (handle_processing_state 5 5 [0x63, 0x31] True
            (Some \<lparr>is_streaming = True, current_content = [0x48, 0x69]\<rparr>) (client_of OPEN)))
       = Some [0x48, 0x69, 0x21]
   \<and> streaming_text (handle_text_deltas [0x63, 0x31] [[0x48], [0x69], [0x21]]
         (handle_stream_start 3 3 [0x63, 0x31] (client_of OPEN)))
       = Some [0x48, 0x69, 0x21]"
  using resume_snapshot [where h = example_hub and a = 1 and b = 2
      and st_a = "client_of OPEN" and st_b = "client_of OPEN" and earlier = "[[0x48], [0x69]]"
      and later = "[[0x21]]" and history = "[]" and now_a = 3 and date_a = 3 and now_b = 5
      and date_b = 5]
  by (simp add: example_hub_def client_of_def)

section \<open>Properties of the Session Registry\<close>

lemma RInv_new: "RInv new_registry"
  by (simp add: RInv_def new_registry_def exists_now_def)

lemma RInv_Call:
  assumes "RInv r" and "pc r t = Idle \<or> (\<exists>c h. pc r t = Returned c h)"
  shows "RInv (r\<lparr>pc := (pc r)(t := Waiting cid)\<rparr>)"
  using assms unfolding RInv_def exists_now_def
  by (simp split: if_splits)

lemma RInv_Acquire:
  assumes "RInv r" and "pc r t = Waiting cid" and "registry_lock r = None"
  shows "RInv (r\<lparr>registry_lock := Some t, pc := (pc r)(t := Looking cid)\<rparr>)"
proof -
  have none: "pc r u \<noteq> Looking c" "pc r u \<noteq> Creating c" for u c
    using assms(1,3) unfolding RInv_def by auto
  show ?thesis
    using assms(1,2) none unfolding RInv_def exists_now_def
    by simp
qed

lemma RInv_Lookup_hit:
  assumes "RInv r" and "pc r t = Looking cid" and "sessions r cid = Some h"
  shows "RInv (r\<lparr>registry_lock := None, pc := (pc r)(t := Returned cid h)\<rparr>)"
proof -
  have lock: "registry_lock r = Some t" using assms(1,2) unfolding RInv_def by blast
  have none: "pc r u \<noteq> Looking c" "pc r u \<noteq> Creating c" if "u \<noteq> t" for u c
    using assms(1) lock that unfolding RInv_def by fastforce+
  have h: "h < length (created r)" "created r ! h = cid"
    using assms(1,3) unfolding RInv_def exists_now_def by blast+
  show ?thesis
    using assms(1) none h unfolding RInv_def exists_now_def
    by simp
qed

lemma RInv_Lookup_miss:
  assumes "RInv r" and "pc r t = Looking cid" and "sessions r cid = None"
  shows "RInv (r\<lparr>pc := (pc r)(t := Creating cid)\<rparr>)"
    (is "RInv ?r'")
proof -
  have lock: "registry_lock r = Some t" using assms(1,2) unfolding RInv_def by blast
  have crit: "registry_lock r = Some u" if "pc r u = Looking c \<or> pc r u = Creating c" for u c
    using assms(1) that unfolding RInv_def by blast
  have creating: "sessions r c = None" if "pc r u = Creating c" for u c
    using assms(1) that unfolding RInv_def by blast
  have ret: "k < length (created r) \<and> created r ! k = c" if "pc r u = Returned c k" for u c k
    using assms(1) that unfolding RInv_def by blast
  show ?thesis
    unfolding RInv_def exists_now_def
  proof (intro conjI allI impI ballI)
    fix u c
    assume "pc ?r' u = Looking c \<or> pc ?r' u = Creating c"
    then have "u = t \<or> pc r u = Looking c \<or> pc r u = Creating c"
      by (cases "u = t") simp_all
    then show "registry_lock ?r' = Some u" using lock crit [of u c] by auto
  next
    fix u c
    assume "pc ?r' u = Creating c"
    then have "(u = t \<and> c = cid) \<or> pc r u = Creating c" by (cases "u = t") simp_all
    then show "sessions ?r' c = None" using assms(3) creating [of u c] by auto
  next
    fix u c k
    assume "pc ?r' u = Returned c k"
    then have "pc r u = Returned c k" by (cases "u = t") simp_all
    from ret [OF this] show "k < length (created ?r')" and "created ?r' ! k = c" by simp_all
  qed (use assms(1) in \<open>simp_all add: RInv_def exists_now_def\<close>)
qed

lemma RInv_Create:
  assumes "RInv r" and "pc r t = Creating cid"
  shows "RInv (r\<lparr>sessions := (sessions r)(cid \<mapsto> length (created r)),
                  created := created r @ [cid],
                  registry_lock := None,
                  pc := (pc r)(t := Returned cid (length (created r)))\<rparr>)"
    (is "RInv ?r'")
proof -
  have lock: "registry_lock r = Some t" using assms unfolding RInv_def by blast
  have none: "pc r u \<noteq> Looking c" "pc r u \<noteq> Creating c" if "u \<noteq> t" for u c
    using assms(1) lock that unfolding RInv_def by fastforce+
  have absent: "sessions r cid = None" using assms unfolding RInv_def by blast
  have old: "h < length (created r) \<and> h \<notin> set (destroyed r) \<and> created r ! h = c"
    if "sessions r c = Some h" for c h
    using assms(1) that unfolding RInv_def exists_now_def by blast
  have live: "sessions r (created r ! h) = Some h"
    if "h < length (created r)" "h \<notin> set (destroyed r)" for h
    using assms(1) that unfolding RInv_def exists_now_def by blast
  have ret: "h < length (created r) \<and> created r ! h = c" if "pc r u = Returned c h" for u c h
    using assms(1) that unfolding RInv_def by blast
  have des: "h < length (created r)" if "h \<in> set (destroyed r)" for h
    using assms(1) that unfolding RInv_def by blast
  have fresh: "length (created r) \<notin> set (destroyed r)"
    using des [of "length (created r)"] by blast
  show ?thesis
    unfolding RInv_def exists_now_def
  proof (intro conjI allI impI ballI)
    fix u c
    assume "pc ?r' u = Looking c \<or> pc ?r' u = Creating c"
    then have "u \<noteq> t \<and> (pc r u = Looking c \<or> pc r u = Creating c)"
      by (cases "u = t") simp_all
    with none show "registry_lock ?r' = Some u" by blast
  next
    fix u c
    assume "pc ?r' u = Creating c"
    then have "u \<noteq> t \<and> pc r u = Creating c" by (cases "u = t") simp_all
    with none show "sessions ?r' c = None" by blast
  next
    fix c h
    assume "sessions ?r' c = Some h"
    then have "(c = cid \<and> h = length (created r)) \<or> (c \<noteq> cid \<and> sessions r c = Some h)"
      by (cases "c = cid") auto
    then have "h < length (created ?r') \<and> h \<notin> set (destroyed ?r') \<and> created ?r' ! h = c"
      using old [of c h] fresh by (auto simp add: nth_append)
    then show "h < length (created ?r')" and "h \<notin> set (destroyed ?r')" and "created ?r' ! h = c"
      by blast+
  next
    fix h
    assume a: "h < length (created ?r') \<and> h \<notin> set (destroyed ?r')"
    show "sessions ?r' (created ?r' ! h) = Some h"
    proof (cases "h < length (created r)")
      case True
      with a have "sessions r (created r ! h) = Some h" using live [of h] by simp
      moreover from this absent have "created r ! h \<noteq> cid" by auto
      ultimately show ?thesis using True by (simp add: nth_append)
    next
      case False
      with a have "h = length (created r)" by simp
      then show ?thesis by simp
    qed
  next
    fix u c h
    assume "pc ?r' u = Returned c h"
    then have "(c = cid \<and> h = length (created r)) \<or> pc r u = Returned c h"
      by (cases "u = t") auto
    then have "h < length (created ?r') \<and> created ?r' ! h = c"
      using ret [of u c h] by (auto simp add: nth_append)
    then show "h < length (created ?r')" and "created ?r' ! h = c" by blast+
  next
    fix h assume "h \<in> set (destroyed ?r')"
    then show "h < length (created ?r')" using des [of h] by simp
  qed
qed

lemma RInv_Destroy:
  assumes "RInv r" and "registry_lock r = None" and "sessions r cid = Some h"
  shows "RInv (r\<lparr>sessions := (sessions r)(cid := None), destroyed := h # destroyed r\<rparr>)"
    (is "RInv ?r'")
proof -
  have none: "pc r u \<noteq> Looking c" "pc r u \<noteq> Creating c" for u c
    using assms(1,2) unfolding RInv_def by auto
  have old: "k < length (created r) \<and> k \<notin> set (destroyed r) \<and> created r ! k = c"
    if "sessions r c = Some k" for c k
    using assms(1) that unfolding RInv_def exists_now_def by blast
  have live: "sessions r (created r ! k) = Some k"
    if "k < length (created r)" "k \<notin> set (destroyed r)" for k
    using assms(1) that unfolding RInv_def exists_now_def by blast
  have ret: "k < length (created r) \<and> created r ! k = c" if "pc r u = Returned c k" for u c k
    using assms(1) that unfolding RInv_def by blast
  have des: "k < length (created r)" if "k \<in> set (destroyed r)" for k
    using assms(1) that unfolding RInv_def by blast
  show ?thesis
    unfolding RInv_def exists_now_def
  proof (intro conjI allI impI ballI)
    fix u c
    assume "pc ?r' u = Looking c \<or> pc ?r' u = Creating c"
    with none show "registry_lock ?r' = Some u" by simp
  next
    fix u c
    assume "pc ?r' u = Creating c"
    with none show "sessions ?r' c = None" by simp
  next
    fix c k
    assume "sessions ?r' c = Some k"
    then have c: "c \<noteq> cid" and k: "sessions r c = Some k"
      by (auto split: if_splits)
    have "k \<noteq> h"
    proof
      assume "k = h"
      with old [OF k] old [OF assms(3)] c show False by simp
    qed
    with old [OF k]
    show "k < length (created ?r')" and "k \<notin> set (destroyed ?r')" and "created ?r' ! k = c"
      by simp_all
  next
    fix k
    assume "k < length (created ?r') \<and> k \<notin> set (destroyed ?r')"
    then have k: "k < length (created r)" "k \<notin> set (destroyed r)" "k \<noteq> h" by auto
    from live [OF k(1,2)] have l: "sessions r (created r ! k) = Some k" .
    with assms(3) k(3) have "created r ! k \<noteq> cid" by auto
    with l show "sessions ?r' (created ?r' ! k) = Some k" by simp
  next
    fix u c k
    assume "pc ?r' u = Returned c k"
    then have "pc r u = Returned c k" by simp
    from ret [OF this] show "k < length (created ?r')" and "created ?r' ! k = c" by simp_all
  next
    fix k assume "k \<in> set (destroyed ?r')"
    then have "k = h \<or> k \<in> set (destroyed r)" by simp
    then show "k < length (created ?r')" using old [OF assms(3)] des [of k] by auto
  qed
qed

lemma RInv_step:
  assumes "RInv r" and "reg_step r a = Some r'"
  shows "RInv r'"
proof (cases a)
  case (Call t cid)
  with assms(2) have "(pc r t = Idle \<or> (\<exists>c h. pc r t = Returned c h))
      \<and> r' = r\<lparr>pc := (pc r)(t := Waiting cid)\<rparr>"
    by (cases "pc r t") simp_all
  with assms(1) show ?thesis by (simp add: RInv_Call)
next
  case (Acquire t)
  with assms(2) obtain cid where "pc r t = Waiting cid" "registry_lock r = None"
      "r' = r\<lparr>registry_lock := Some t, pc := (pc r)(t := Looking cid)\<rparr>"
    by (cases "pc r t") (simp_all split: if_splits)
  with assms(1) show ?thesis by (simp add: RInv_Acquire)
next
  case (Lookup t)
  with assms(2) obtain cid where p: "pc r t = Looking cid"
    by (cases "pc r t") simp_all
  show ?thesis
  proof (cases "sessions r cid")
    case None
    with assms(2) Lookup p have "r' = r\<lparr>pc := (pc r)(t := Creating cid)\<rparr>" by simp
    with assms(1) p None show ?thesis by (simp add: RInv_Lookup_miss)
  next
    case (Some h)
    with assms(2) Lookup p
    have "r' = r\<lparr>registry_lock := None, pc := (pc r)(t := Returned cid h)\<rparr>" by simp
    with assms(1) p Some show ?thesis by (simp add: RInv_Lookup_hit)
  qed
next
  case (Create t)
  with assms(2) obtain cid where "pc r t = Creating cid"
      "r' = r\<lparr>sessions := (sessions r)(cid \<mapsto> length (created r)),
                  created := created r @ [cid],
                  registry_lock := None,
                  pc := (pc r)(t := Returned cid (length (created r)))\<rparr>"
    by (cases "pc r t") simp_all
  with assms(1) show ?thesis by (simp add: RInv_Create)
next
  case (Destroy cid)
  with assms(2) have l: "registry_lock r = None" by (simp split: if_splits)
  show ?thesis
  proof (cases "sessions r cid")
    case None
    with assms Destroy l show ?thesis by simp
  next
    case (Some h)
    with assms(2) Destroy l
    have "r' = r\<lparr>sessions := (sessions r)(cid := None), destroyed := h # destroyed r\<rparr>" by simp
    with assms(1) l Some show ?thesis by (simp add: RInv_Destroy)
  qed
qed

lemma RInv_run: "RInv r \<Longrightarrow> reg_run r as = Some r' \<Longrightarrow> RInv r'"
  by (induction as arbitrary: r) (auto split: option.splits dest: RInv_step)

lemma reg_step_no_destroy:
  "reg_step r a = Some r' \<Longrightarrow> \<not> is_destroy a \<Longrightarrow> destroyed r' = destroyed r"
  by (cases a) (auto split: Pc.splits option.splits if_splits)

lemma reg_run_no_destroy:
  "reg_run r as = Some r' \<Longrightarrow> \<forall>a \<in> set as. \<not> is_destroy a \<Longrightarrow> destroyed r' = destroyed r"
proof (induction as arbitrary: r)
  case Nil
  then show ?case by simp
next
  case (Cons a as)
  from Cons.prems(1) obtain r1 where s: "reg_step r a = Some r1" and t: "reg_run r1 as = Some r'"
    by (auto split: option.splits)
  from Cons.prems(2) have "\<not> is_destroy a" and "\<forall>a \<in> set as. \<not> is_destroy a" by simp_all
  with Cons.IH [OF t] reg_step_no_destroy [OF s] show ?case by simp
qed

text \<open>
  Claim C8. Let any number of callers run \<open>getOrCreate\<close> concurrently, their steps
  interleaved in any order, from the start of the registry. As long as no session is
  torn down, any two callers that have returned for the same ConversationId hold the
  same session instance; this includes two callers that both called before any session
  of that conversation existed. With teardowns among the steps, it holds of any two
  returned instances that still exist, and in every state at most one existing
  session instance belongs to a ConversationId.
\<close>

theorem one_session_per_conversation:
  assumes "reg_run new_registry as = Some r"
  shows "((\<forall>a \<in> set as. \<not> is_destroy a) \<longrightarrow>
            (\<forall>t u cid h h'. pc r t = Returned cid h \<and> pc r u = Returned cid h' \<longrightarrow> h = h'))
       \<and> (\<forall>t u cid h h'. pc r t = Returned cid h \<and> pc r u = Returned cid h'
            \<and> exists_now r h \<and> exists_now r h' \<longrightarrow> h = h')
       \<and> (\<forall>h h'. exists_now r h \<and> exists_now r h' \<and> created r ! h = created r ! h' \<longrightarrow> h = h')"
proof -
  have inv: "RInv r" using RInv_run [OF RInv_new assms] .
  have live: "sessions r (created r ! h) = Some h" if "exists_now r h" for h
    using inv that unfolding RInv_def by blast
  have ret: "h < length (created r) \<and> created r ! h = c" if "pc r u = Returned c h" for u c h
    using inv that unfolding RInv_def by blast
  have same: "h = h'" if "exists_now r h" "exists_now r h'" "created r ! h = created r ! h'"
    for h h'
  proof -
    have "Some h = sessions r (created r ! h)" using live [OF that(1)] by simp
    also have "\<dots> = Some h'" using live [OF that(2)] that(3) by simp
    finally show ?thesis by simp
  qed
  have returned: "h = h'"
    if "pc r t = Returned cid h" "pc r u = Returned cid h'" "exists_now r h" "exists_now r h'"
    for t u cid h h'
  proof -
    have "created r ! h = cid" "created r ! h' = cid"
      using ret [OF that(1)] ret [OF that(2)] by simp_all
    with same [OF that(3,4)] show ?thesis by simp
  qed
  show ?thesis
  proof (intro conjI allI impI)
    fix t u cid h h'
    assume nd: "\<forall>a \<in> set as. \<not> is_destroy a"
      and a: "pc r t = Returned cid h \<and> pc r u = Returned cid h'"
    have "destroyed r = []"
      using reg_run_no_destroy [OF assms nd] by (simp add: new_registry_def)
    then have "exists_now r h" "exists_now r h'"
      using a ret [of t cid h] ret [of u cid h'] by (simp_all add: exists_now_def)
    with a show "h = h'" using returned [of t cid h u h'] by blast
  next
    fix t u cid h h'
    assume "pc r t = Returned cid h \<and> pc r u = Returned cid h'
            \<and> exists_now r h \<and> exists_now r h'"
    then show "h = h'" using returned [of t cid h u h'] by blast
  next
    fix h h'
    assume "exists_now r h \<and> exists_now r h' \<and> created r ! h = created r ! h'"
    then show "h = h'" using same [of h h'] by blast
  qed
qed

theorem one_session_per_conversation_witness:
  "reg_run new_registry [Call 1 [0x63], Call 2 [0x63], Acquire 1, Lookup 1, Acquire 2] = None
   \<and> reg_run new_registry
        [Call 1 [0x63], Call 2 [0x63], Acquire 1, Lookup 1, Create 1, Acquire 2, Lookup 2]
       = Some (the (reg_run new_registry
        [Call 1 [0x63], Call 2 [0x63], Acquire 1, Lookup 1, Create 1, Acquire 2, Lookup 2]))
   \<and> pc (the (reg_run new_registry
        [Call 1 [0x63], Call 2 [0x63], Acquire 1, Lookup 1, Create 1, Acquire 2, Lookup 2])) 1
       = Returned [0x63] 0
   \<and> pc (the (reg_run new_registry
        [Call 1 [0x63], Call 2 [0x63], Acquire 1, Lookup 1, Create 1, Acquire 2, Lookup 2])) 2
       = Returned [0x63] 0"
  using one_session_per_conversation [where r = "the (reg_run new_registry
        [Call 1 [0x63], Call 2 [0x63], Acquire 1, Lookup 1, Create 1, Acquire 2, Lookup 2])"
      and as = "[Call 1 [0x63], Call 2 [0x63], Acquire 1, Lookup 1, Create 1, Acquire 2, Lookup 2]"]
  by (simp add: new_registry_def)

end
